theory Spec2Isabelle
  imports Main "HOL-Library.Word"
begin

unbundle bit_operations_syntax

section \<open>The write path of the WebSocket connection (write.go)\<close>

text \<open>
  The theory embeds \<^verbatim>\<open>write.go\<close>: the message writer (\<^verbatim>\<open>msgWriter\<close>), the one-shot
  \<^verbatim>\<open>Conn.Write\<close>, the control path \<^verbatim>\<open>writeControl\<close>, the frame writer \<^verbatim>\<open>writeFrame\<close>
  and the masking payload writer \<^verbatim>\<open>writeFramePayload\<close>.

  A Go method that mutates \<^verbatim>\<open>*Conn\<close> and returns \<^verbatim>\<open>(int, error)\<close> becomes a function
  from the connection to the updated connection, the count and an \<open>error option\<close>
  (\<open>None\<close> is Go's \<^verbatim>\<open>nil\<close>). The state reached at an early return is the state
  returned. A call that never returns (a lock that is never released, awaited with a
  context that never fires) has the value \<open>None\<close> of the outer \<open>option\<close>.
  The model is sequential: one goroutine runs, and no other party changes the
  connection between two steps.
\<close>

subsection \<open>Errors\<close>

type_synonym byte = "8 word"
type_synonym uint32 = "32 word"

datatype error =
    Canceled                \<comment> \<open>\<^verbatim>\<open>context.Canceled\<close>\<close>
  | DeadlineExceeded        \<comment> \<open>\<^verbatim>\<open>context.DeadlineExceeded\<close>\<close>
  | ErrUnexpectedEOF        \<comment> \<open>\<^verbatim>\<open>io.ErrUnexpectedEOF\<close>: the random source ran dry\<close>
  | ErrShortWrite           \<comment> \<open>\<^verbatim>\<open>io.ErrShortWrite\<close>\<close>
  | SinkError string        \<comment> \<open>an error of the underlying byte stream\<close>
  | New string              \<comment> \<open>\<^verbatim>\<open>xerrors.New(msg)\<close>\<close>
  | Errorf string error     \<comment> \<open>\<^verbatim>\<open>xerrors.Errorf(msg + ": %w", err)\<close>\<close>
  | Panic string            \<comment> \<open>a run-time panic, as a value\<close>

text \<open>\<^verbatim>\<open>errd.Wrap(&err, msg)\<close>, deferred: a non-nil error is wrapped with the context string.\<close>

definition errd_Wrap :: "string \<Rightarrow> error option \<Rightarrow> error option" where
  "errd_Wrap msg err = (case err of None \<Rightarrow> None | Some e \<Rightarrow> Some (Errorf msg e))"

text \<open>The innermost error of a chain of wrappers (what \<^verbatim>\<open>%w\<close> unwraps to).\<close>

fun cause :: "error \<Rightarrow> error" where
  "cause (Errorf msg e) = cause e"
| "cause e = e"

subsection \<open>Contexts\<close>

text \<open>
  A \<^verbatim>\<open>context.Context\<close> as the write path sees it: the error it reports once it is
  done (\<open>None\<close> while it is live), and the time left until its deadline in
  nanoseconds, measured when the context is handed over (\<open>None\<close>: no deadline).
\<close>

record ctx =
  ctx_err :: "error option"
  ctx_deadline :: "nat option"

definition Background :: ctx where
  "Background = \<lparr>ctx_err = None, ctx_deadline = None\<rparr>"

definition Second :: nat where
  "Second = 1000000000"

text \<open>
  \<^verbatim>\<open>context.WithTimeout(parent, d)\<close>: the child is done when the parent is, and its
  deadline is no later than \<open>d\<close> from now nor than the parent's.
\<close>

definition WithTimeout :: "ctx \<Rightarrow> nat \<Rightarrow> ctx" where
  "WithTimeout parent d =
     (case ctx_deadline parent of
        None \<Rightarrow> parent\<lparr>ctx_deadline := Some d\<rparr>
      | Some d0 \<Rightarrow> if d0 \<le> d then parent else parent\<lparr>ctx_deadline := Some d\<rparr>)"

subsection \<open>The buffered writer over the byte stream (bufio.Writer)\<close>

text \<open>
  The byte stream below the buffered writer: the bytes it has accepted, and the error it
  answers every write with once it has failed (\<open>None\<close>: it accepts everything).
\<close>

record sink =
  wire :: "byte list"
  sink_err :: "error option"

definition sink_Write :: "sink \<Rightarrow> byte list \<Rightarrow> sink \<times> nat \<times> error option" where
  "sink_Write s p =
     (case sink_err s of
        Some e \<Rightarrow> (s, 0, Some e)
      | None \<Rightarrow> (s\<lparr>wire := wire s @ p\<rparr>, length p, None))"

text \<open>
  \<^verbatim>\<open>bufio.Writer\<close>: the backing slice \<open>bw_buf\<close> (its length is the buffer size), the
  number \<open>bw_n\<close> of bytes staged in it, the sticky error and the sink.
\<close>

record bufio_Writer =
  bw_buf :: "byte list"
  bw_n :: nat
  bw_err :: "error option"
  bw_wr :: sink

definition Available :: "bufio_Writer \<Rightarrow> nat" where
  "Available b = length (bw_buf b) - bw_n b"

definition Buffered :: "bufio_Writer \<Rightarrow> nat" where
  "Buffered b = bw_n b"

text \<open>Go's \<^verbatim>\<open>copy(dst[at:], src)\<close> on a slice of fixed length.\<close>

definition copy_at :: "byte list \<Rightarrow> nat \<Rightarrow> byte list \<Rightarrow> byte list" where
  "copy_at dst at src =
     take at dst @ take (length dst - at) src @ drop (at + length src) dst"

definition Flush :: "bufio_Writer \<Rightarrow> bufio_Writer \<times> error option" where
  "Flush b =
     (case bw_err b of
        Some e \<Rightarrow> (b, Some e)
      | None \<Rightarrow>
          if bw_n b = 0 then (b, None)
          else
            (case sink_Write (bw_wr b) (take (bw_n b) (bw_buf b)) of
               (s, k, err) \<Rightarrow>
                 (case (if k < bw_n b \<and> err = None then Some ErrShortWrite else err) of
                    Some e \<Rightarrow>
                      (b\<lparr>bw_wr := s,
                         bw_buf := (if 0 < k \<and> k < bw_n b
                                    then copy_at (bw_buf b) 0 (take (bw_n b - k) (drop k (bw_buf b)))
                                    else bw_buf b),
                         bw_n := bw_n b - k,
                         bw_err := Some e\<rparr>, Some e)
                  | None \<Rightarrow> (b\<lparr>bw_wr := s, bw_n := 0\<rparr>, None))))"

text \<open>
  \<^verbatim>\<open>bufio.Writer.Write\<close>. While the input does not fit: an empty buffer passes the
  input to the sink directly, otherwise the buffer is filled and flushed. What fits in
  the end is copied into the buffer.
\<close>

function bufio_Write :: "bufio_Writer \<Rightarrow> byte list \<Rightarrow> nat \<Rightarrow> bufio_Writer \<times> nat \<times> error option" where
  "bufio_Write b p nn =
     (if length p > Available b \<and> bw_err b = None then
        (if Buffered b = 0 then
           (case sink_Write (bw_wr b) p of
              (s, k, err) \<Rightarrow> bufio_Write (b\<lparr>bw_wr := s, bw_err := err\<rparr>) (drop k p) (nn + k))
         else
           (let k = min (Available b) (length p);
                b1 = b\<lparr>bw_buf := copy_at (bw_buf b) (bw_n b) p, bw_n := bw_n b + k\<rparr>
            in bufio_Write (fst (Flush b1)) (drop k p) (nn + k)))
      else
        (case bw_err b of
           Some e \<Rightarrow> (b, nn, Some e)
         | None \<Rightarrow>
             (b\<lparr>bw_buf := copy_at (bw_buf b) (bw_n b) p, bw_n := bw_n b + length p\<rparr>,
              nn + length p, None)))"
  by pat_completeness auto
termination
  apply (relation "measure (\<lambda>(b, p, nn).
          if bw_err b \<noteq> None then 0 else 1 + 2 * length p + (if bw_n b > 0 then 1 else 0))")
    apply simp
   apply (auto simp: sink_Write_def Buffered_def Available_def split: option.splits)[1]
  apply (auto simp: Flush_def sink_Write_def Buffered_def Available_def split: option.splits)
  done

declare bufio_Write.simps [simp del]

subsection \<open>Frame headers and masking (frame codec)\<close>

text \<open>
  Modelled from the spec: the \<^verbatim>\<open>opcode\<close> and \<^verbatim>\<open>MessageType\<close> declarations are not in
  \<^verbatim>\<open>write.go\<close>. The opcodes are the six of the frame header in the data model; a message
  type is text or binary, and \<^verbatim>\<open>opcode(typ)\<close> is the opcode of the same number.
\<close>

datatype opcode = opContinuation | opText | opBinary | opClose | opPing | opPong

datatype MessageType = MessageText | MessageBinary

fun opcode_of :: "MessageType \<Rightarrow> opcode" where
  "opcode_of MessageText = opText"
| "opcode_of MessageBinary = opBinary"

fun opcode_byte :: "opcode \<Rightarrow> byte" where
  "opcode_byte opContinuation = 0x0"
| "opcode_byte opText = 0x1"
| "opcode_byte opBinary = 0x2"
| "opcode_byte opClose = 0x8"
| "opcode_byte opPing = 0x9"
| "opcode_byte opPong = 0xA"

text \<open>
  Modelled from the spec: the \<^verbatim>\<open>header\<close> struct is not in \<^verbatim>\<open>write.go\<close>; its fields are those
  the data model lists and \<^verbatim>\<open>writeFrame\<close> assigns.
\<close>

record header =
  h_fin :: bool
  h_rsv1 :: bool
  h_opcode :: opcode
  h_payloadLength :: nat
  h_masked :: bool
  h_maskKey :: uint32

text \<open>The \<open>k\<close> low bytes of a number, most significant first.\<close>

definition be_bytes :: "nat \<Rightarrow> nat \<Rightarrow> byte list" where
  "be_bytes k v = map (\<lambda>i. of_nat (v div 2 ^ (8 * i))) (rev [0..<k])"

text \<open>
  The four bytes of a mask key, in the order \<^verbatim>\<open>writeFrame\<close> reads them from the random
  source (\<^verbatim>\<open>binary.LittleEndian\<close>), and the key of four bytes.
\<close>

definition le_bytes32 :: "uint32 \<Rightarrow> byte list" where
  "le_bytes32 k = [ucast k, ucast (drop_bit 8 k), ucast (drop_bit 16 k), ucast (drop_bit 24 k)]"

definition le_uint32 :: "byte list \<Rightarrow> uint32" where
  "le_uint32 bs =
     ucast (bs ! 0) OR push_bit 8 (ucast (bs ! 1)) OR push_bit 16 (ucast (bs ! 2))
       OR push_bit 24 (ucast (bs ! 3))"

text \<open>
  Modelled from the spec: \<^verbatim>\<open>writeFrameHeader\<close> is not in \<^verbatim>\<open>write.go\<close>. The header is the
  2 to 14 bytes of RFC 6455, section 5.2: FIN, RSV1 and the opcode; the masked flag and
  the length in 7 bits for at most 125, in 7+16 bits for at most 65535, in 7+64 bits
  otherwise; then the mask key when masked.
\<close>

definition header_bytes :: "header \<Rightarrow> byte list" where
  "header_bytes h =
     [(if h_fin h then 0x80 else 0) OR (if h_rsv1 h then 0x40 else 0) OR opcode_byte (h_opcode h),
      (if h_masked h then 0x80 else 0) OR
        (if h_payloadLength h \<le> 125 then of_nat (h_payloadLength h)
         else if h_payloadLength h \<le> 65535 then 126 else 127)]
     @ (if h_payloadLength h \<le> 125 then []
        else if h_payloadLength h \<le> 65535 then be_bytes 2 (h_payloadLength h)
        else be_bytes 8 (h_payloadLength h))
     @ (if h_masked h then le_bytes32 (h_maskKey h) else [])"

definition writeFrameHeader :: "header \<Rightarrow> bufio_Writer \<Rightarrow> bufio_Writer \<times> error option" where
  "writeFrameHeader h w = (case bufio_Write w (header_bytes h) 0 of (w', k, err) \<Rightarrow> (w', err))"

text \<open>
  Modelled from the spec: \<^verbatim>\<open>mask\<close> is not in \<^verbatim>\<open>write.go\<close>. It is the byte loop of the
  frame codec: each byte is XOR'd with the current first byte of the key, the key
  rotates by one byte, and the rotated key is returned with the masked bytes.
\<close>

definition rotate_key :: "uint32 \<Rightarrow> uint32" where
  "rotate_key k = drop_bit 8 k OR push_bit 24 k"

fun mask_bytes :: "uint32 \<Rightarrow> byte list \<Rightarrow> uint32 \<times> byte list" where
  "mask_bytes key [] = (key, [])"
| "mask_bytes key (b # bs) =
     (case mask_bytes (rotate_key key) bs of (key', bs') \<Rightarrow> (key', (b XOR ucast key) # bs'))"

subsection \<open>Sliding window and trim writer (compression helpers)\<close>

text \<open>
  Modelled from the spec: \<^verbatim>\<open>slidingWindow\<close> is not in \<^verbatim>\<open>write.go\<close>. It has a capacity,
  is initialised lazily (\<open>sw_buf = None\<close> before), appends with eviction of the oldest
  bytes, and is released by \<^verbatim>\<open>close\<close>.
\<close>

record slidingWindow =
  sw_buf :: "byte list option"
  sw_cap :: nat

definition sw_init :: "nat \<Rightarrow> slidingWindow \<Rightarrow> slidingWindow" where
  "sw_init n sw = (if sw_buf sw \<noteq> None then sw else \<lparr>sw_buf = Some [], sw_cap = n\<rparr>)"

definition sw_write :: "byte list \<Rightarrow> slidingWindow \<Rightarrow> slidingWindow" where
  "sw_write p sw =
     (case sw_buf sw of
        None \<Rightarrow> sw
      | Some b \<Rightarrow> sw\<lparr>sw_buf := Some (drop (length (b @ p) - sw_cap sw) (b @ p))\<rparr>)"

definition sw_close :: "slidingWindow \<Rightarrow> slidingWindow" where
  "sw_close sw = sw\<lparr>sw_buf := None\<rparr>"

text \<open>The bytes handed to the compressor as preset dictionary (\<^verbatim>\<open>mw.dict.buf\<close>).\<close>

definition sw_bytes :: "slidingWindow \<Rightarrow> byte list" where
  "sw_bytes sw = (case sw_buf sw of None \<Rightarrow> [] | Some b \<Rightarrow> b)"

text \<open>
  Modelled from the spec: \<^verbatim>\<open>trimLastFourBytesWriter\<close> is not in \<^verbatim>\<open>write.go\<close>. It holds a
  tail of at most four bytes; a write passes downstream the tail and the input without
  the last four bytes of the two together, which it keeps; \<^verbatim>\<open>reset\<close> clears the tail.
  \<open>tw_split\<close> gives the bytes passed downstream and the new tail.
\<close>

record trimLastFourBytesWriter =
  tw_tail :: "byte list"

definition tw_reset :: "trimLastFourBytesWriter \<Rightarrow> trimLastFourBytesWriter" where
  "tw_reset tw = tw\<lparr>tw_tail := []\<rparr>"

definition tw_split :: "trimLastFourBytesWriter \<Rightarrow> byte list \<Rightarrow> byte list \<times> trimLastFourBytesWriter" where
  "tw_split tw p =
     (let burst = tw_tail tw @ p
      in (take (length burst - 4) burst, tw\<lparr>tw_tail := drop (length burst - 4) burst\<rparr>))"

subsection \<open>The connection and its message writer\<close>

text \<open>
  \<^verbatim>\<open>msgWriter\<close> (write.go, lines 51 to 64). \<open>mw_mu\<close> and \<open>mw_writeMu\<close> are the two locks
  (\<open>True\<close>: held); the back pointer \<^verbatim>\<open>c\<close> is the connection that holds the writer.
\<close>

record msgWriter =
  mw_mu :: bool
  mw_writeMu :: bool
  mw_ctx :: ctx
  mw_opcode :: opcode
  mw_closed :: bool
  mw_flate :: bool
  mw_trimWriter :: "trimLastFourBytesWriter option"
  mw_dict :: slidingWindow

text \<open>
  Modelled from the spec: the \<^verbatim>\<open>compressionOptions\<close> and \<^verbatim>\<open>Conn\<close> structs and
  \<^verbatim>\<open>Conn.flate\<close> are not in \<^verbatim>\<open>write.go\<close>. The options are the record of the handshake
  (\<open>flate_enabled\<close> is what \<^verbatim>\<open>c.flate()\<close> returns); the connection has the fields
  \<^verbatim>\<open>write.go\<close> uses. The close state is the broadcast signal \<open>closed\<close> and the once-set
  error \<open>closeErr\<close>. \<open>writeTimeout\<close> lists the contexts sent to the write-timeout
  mailbox, \<open>randReader\<close> is the supply of \<^verbatim>\<open>crypto/rand.Reader\<close>, and \<open>sent\<close> is the trace
  of the frames handed to the buffered writer (header and payload before masking): an
  observation, not a field of the Go struct.
\<close>

record compressionOptions =
  clientNoContextTakeover :: bool
  serverNoContextTakeover :: bool

record conn =
  client :: bool
  flate_enabled :: bool
  copts :: compressionOptions
  flateThreshold :: int
  bw :: bufio_Writer
  writeTimeout :: "ctx list"
  msgWriter :: msgWriter
  writeFrameMu :: bool
  writeHeader :: header
  closed :: bool
  closeErr :: "error option"
  randReader :: "byte list"
  sent :: "(header \<times> byte list) list"

text \<open>
  Modelled from the spec: the context-aware mutex \<^verbatim>\<open>mu\<close> is not in \<^verbatim>\<open>write.go\<close>. After the
  close state is set an acquisition fails immediately with the close error; a context
  that has fired fails it with the context's error; a free lock is taken. A held lock
  is never released by another party in this sequential model, so the wait ends at the
  context's deadline, or never. The result is the lock's new state and the error.
\<close>

definition mu_Lock :: "conn \<Rightarrow> bool \<Rightarrow> ctx \<Rightarrow> (bool \<times> error option) option" where
  "mu_Lock c held cx =
     (if closed c then Some (held, closeErr c)
      else
        (case ctx_err cx of
           Some e \<Rightarrow> Some (held, Some e)
         | None \<Rightarrow>
             if \<not> held then Some (True, None)
             else (case ctx_deadline cx of
                     Some d \<Rightarrow> Some (held, Some DeadlineExceeded)
                   | None \<Rightarrow> None)))"

subsection \<open>Writing one frame\<close>

text \<open>
  The loop of \<^verbatim>\<open>writeFramePayload\<close> (write.go, lines 290 to 320) for a masked frame.
  \<^verbatim>\<open>c.writeBuf\<close> is the backing slice of \<^verbatim>\<open>c.bw\<close>, so masking
  \<^verbatim>\<open>c.writeBuf[i:c.bw.Buffered()]\<close> in place rewrites \<open>bw_buf\<close> between \<open>i\<close> and \<open>bw_n\<close>.
  \<^verbatim>\<open>writeFramePayload\<close> (lines 283 to 321) reads the header and changes the buffered
  writer only: it returns the new buffered writer, which the caller stores in \<open>bw\<close>.
\<close>

partial_function (option) writeFramePayload_loop ::
  "bufio_Writer \<Rightarrow> uint32 \<Rightarrow> byte list \<Rightarrow> nat \<Rightarrow> (bufio_Writer \<times> nat \<times> error option) option" where
  "writeFramePayload_loop b maskKey p n =
     (if length p > 0 then
        (case (if Available b = 0 then Flush b else (b, None)) of
           (b1, Some e) \<Rightarrow> Some (b1, n, Some e)
         | (b1, None) \<Rightarrow>
             (let i = Buffered b1;
                  j = (if length p > Available b1 then Available b1 else length p)
              in (case bufio_Write b1 (take j p) 0 of
                    (b2, k, Some e) \<Rightarrow> Some (b2, n, Some e)
                  | (b2, k, None) \<Rightarrow>
                      (case mask_bytes maskKey (take (Buffered b2 - i) (drop i (bw_buf b2))) of
                         (maskKey', masked) \<Rightarrow>
                           writeFramePayload_loop
                             (b2\<lparr>bw_buf := copy_at (bw_buf b2) i masked\<rparr>) maskKey' (drop j p) (n + j)))))
      else Some (b, n, None))"

declare writeFramePayload_loop.simps [code]

definition writeFramePayload ::
  "conn \<Rightarrow> byte list \<Rightarrow> (bufio_Writer \<times> nat \<times> error option) option" where
  "writeFramePayload c p =
     (if \<not> h_masked (writeHeader c) then
        (case bufio_Write (bw c) p 0 of
           (b, n, err) \<Rightarrow> Some (b, n, errd_Wrap ''failed to write frame payload'' err))
      else
        (case writeFramePayload_loop (bw c) (h_maskKey (writeHeader c)) p 0 of
           None \<Rightarrow> None
         | Some (b, n, err) \<Rightarrow> Some (b, n, errd_Wrap ''failed to write frame payload'' err)))"

text \<open>
  \<^verbatim>\<open>writeFrame\<close> after the frame lock is taken (write.go, lines 234 to 280). A \<^verbatim>\<open>select\<close>
  between the closed signal and the write-timeout mailbox takes the closed branch when
  the connection is closed, and hands the context over otherwise. The masking key is
  four bytes of the random source; a source with fewer bytes left fails the read.
\<close>

definition writeFrame_locked ::
  "conn \<Rightarrow> ctx \<Rightarrow> bool \<Rightarrow> bool \<Rightarrow> opcode \<Rightarrow> byte list \<Rightarrow> (conn \<times> nat \<times> error option) option" where
  "writeFrame_locked c cx fin flate opc p =
     (if closed c then Some (c, 0, closeErr c)
      else
        (let c1 = c\<lparr>writeTimeout := writeTimeout c @ [cx]\<rparr>;
             c2 = c1\<lparr>writeHeader :=
                       (writeHeader c1)\<lparr>h_fin := fin, h_opcode := opc, h_payloadLength := length p\<rparr>\<rparr>
         in (case (if client c2 then
                     (if length (randReader c2) < 4 then
                        (c2\<lparr>writeHeader := (writeHeader c2)\<lparr>h_masked := True\<rparr>, randReader := []\<rparr>,
                         Some (Errorf ''failed to generate masking key'' ErrUnexpectedEOF))
                      else
                        (c2\<lparr>writeHeader := (writeHeader c2)
                               \<lparr>h_masked := True, h_maskKey := le_uint32 (take 4 (randReader c2))\<rparr>,
                            randReader := drop 4 (randReader c2)\<rparr>, None))
                   else (c2, None)) of
               (c3, Some e) \<Rightarrow> Some (c3, 0, Some e)
             | (c3, None) \<Rightarrow>
                 (let c4 = c3\<lparr>writeHeader := (writeHeader c3)
                                \<lparr>h_rsv1 := (flate \<and> (opc = opText \<or> opc = opBinary))\<rparr>\<rparr>
                  in (case writeFrameHeader (writeHeader c4) (bw c4) of
                        (b5, Some e) \<Rightarrow> Some (c4\<lparr>bw := b5\<rparr>, 0, Some e)
                      | (b5, None) \<Rightarrow>
                          (case writeFramePayload (c4\<lparr>bw := b5\<rparr>) p of
                             None \<Rightarrow> None
                           | Some (b6, n, Some e) \<Rightarrow> Some (c4\<lparr>bw := b6\<rparr>, n, Some e)
                           | Some (b6, n, None) \<Rightarrow>
                               (let c7 = c4\<lparr>bw := b6, sent := sent c4 @ [(writeHeader c4, p)]\<rparr>
                                in (case (if h_fin (writeHeader c7) then Flush (bw c7)
                                          else (bw c7, None)) of
                                      (b8, Some e) \<Rightarrow>
                                        Some (c7\<lparr>bw := b8\<rparr>, n, Some (Errorf ''failed to flush'' e))
                                    | (b8, None) \<Rightarrow>
                                        (let c8 = c7\<lparr>bw := b8\<rparr>
                                         in if closed c8 then Some (c8, n, closeErr c8)
                                            else Some (c8\<lparr>writeTimeout :=
                                                            writeTimeout c8 @ [Background]\<rparr>,
                                                       n, None))))))))))"

text \<open>
  \<^verbatim>\<open>writeFrame\<close> (write.go, lines 227 to 281): the frame lock is taken with the caller's
  context, the deferred \<^verbatim>\<open>Unlock\<close> releases it on every return after that.
\<close>

definition writeFrame ::
  "conn \<Rightarrow> ctx \<Rightarrow> bool \<Rightarrow> bool \<Rightarrow> opcode \<Rightarrow> byte list \<Rightarrow> (conn \<times> nat \<times> error option) option" where
  "writeFrame c cx fin flate opc p =
     (case mu_Lock c (writeFrameMu c) cx of
        None \<Rightarrow> None
      | Some (held, Some e) \<Rightarrow> Some (c\<lparr>writeFrameMu := held\<rparr>, 0, Some e)
      | Some (held, None) \<Rightarrow>
          (case writeFrame_locked (c\<lparr>writeFrameMu := held\<rparr>) cx fin flate opc p of
             None \<Rightarrow> None
           | Some (c', n, err) \<Rightarrow> Some (c'\<lparr>writeFrameMu := False\<rparr>, n, err)))"

text \<open>\<^verbatim>\<open>writeControl\<close> (write.go, lines 215 to 224).\<close>

definition writeControl :: "conn \<Rightarrow> ctx \<Rightarrow> opcode \<Rightarrow> byte list \<Rightarrow> (conn \<times> error option) option" where
  "writeControl c cx opc p =
     (case writeFrame c (WithTimeout cx (Second * 5)) True False opc p of
        None \<Rightarrow> None
      | Some (c', n, Some e) \<Rightarrow> Some (c', Some (Errorf ''failed to write control frame'' e))
      | Some (c', n, None) \<Rightarrow> Some (c', None))"

subsection \<open>The message writer\<close>

text \<open>\<^verbatim>\<open>msgWriter.ensureFlate\<close> (write.go, lines 74 to 83).\<close>

definition ensureFlate :: "conn \<Rightarrow> conn" where
  "ensureFlate c =
     (let mw = msgWriter c;
          mw1 = (if mw_trimWriter mw = None then mw\<lparr>mw_trimWriter := Some \<lparr>tw_tail = []\<rparr>\<rparr> else mw);
          mw2 = mw1\<lparr>mw_dict := sw_init 8192 (mw_dict mw1)\<rparr>
      in c\<lparr>msgWriter := mw2\<lparr>mw_flate := True\<rparr>\<rparr>)"

text \<open>\<^verbatim>\<open>msgWriter.flateContextTakeover\<close> (write.go, lines 85 to 90).\<close>

definition flateContextTakeover :: "conn \<Rightarrow> bool" where
  "flateContextTakeover c =
     (if client c then \<not> clientNoContextTakeover (copts c)
      else \<not> serverNoContextTakeover (copts c))"

text \<open>\<^verbatim>\<open>msgWriter.reset\<close> (write.go, lines 120 to 136).\<close>

definition reset :: "conn \<Rightarrow> ctx \<Rightarrow> MessageType \<Rightarrow> (conn \<times> error option) option" where
  "reset c cx typ =
     (case mu_Lock c (mw_mu (msgWriter c)) cx of
        None \<Rightarrow> None
      | Some (held, Some e) \<Rightarrow> Some (c\<lparr>msgWriter := (msgWriter c)\<lparr>mw_mu := held\<rparr>\<rparr>, Some e)
      | Some (held, None) \<Rightarrow>
          Some (c\<lparr>msgWriter := (msgWriter c)
                   \<lparr>mw_mu := held, mw_ctx := cx, mw_opcode := opcode_of typ, mw_closed := False,
                    mw_flate := False,
                    mw_trimWriter := map_option tw_reset (mw_trimWriter (msgWriter c))\<rparr>\<rparr>, None))"

text \<open>\<^verbatim>\<open>Conn.writer\<close> (write.go, lines 92 to 98) and \<^verbatim>\<open>Conn.Writer\<close> (lines 29 to 35).\<close>

definition writer :: "conn \<Rightarrow> ctx \<Rightarrow> MessageType \<Rightarrow> (conn \<times> error option) option" where
  "writer c cx typ = reset c cx typ"

definition Writer :: "conn \<Rightarrow> ctx \<Rightarrow> MessageType \<Rightarrow> (conn \<times> error option) option" where
  "Writer c cx typ =
     (case writer c cx typ of
        None \<Rightarrow> None
      | Some (c', Some e) \<Rightarrow> Some (c', Some (Errorf ''failed to get writer'' e))
      | Some (c', None) \<Rightarrow> Some (c', None))"

text \<open>\<^verbatim>\<open>msgWriter.write\<close> (write.go, lines 166 to 173).\<close>

definition msgWriter_write :: "conn \<Rightarrow> byte list \<Rightarrow> (conn \<times> nat \<times> error option) option" where
  "msgWriter_write c p =
     (case writeFrame c (mw_ctx (msgWriter c)) False (mw_flate (msgWriter c))
             (mw_opcode (msgWriter c)) p of
        None \<Rightarrow> None
      | Some (c', n, Some e) \<Rightarrow> Some (c', n, Some (Errorf ''failed to write data frame'' e))
      | Some (c', n, None) \<Rightarrow>
          Some (c'\<lparr>msgWriter := (msgWriter c')\<lparr>mw_opcode := opContinuation\<rparr>\<rparr>, n, None))"

text \<open>
  A write to the trim writer. Its downstream is \<^verbatim>\<open>mw.write\<close> (write.go, line 77); nothing
  is passed downstream while the burst has no more than four bytes. A writer that was
  never attached is a nil pointer.
\<close>

definition trimWriter_Write :: "conn \<Rightarrow> byte list \<Rightarrow> (conn \<times> nat \<times> error option) option" where
  "trimWriter_Write c p =
     (case mw_trimWriter (msgWriter c) of
        None \<Rightarrow> Some (c, 0, Some (Panic ''nil pointer dereference''))
      | Some tw \<Rightarrow>
          (case tw_split tw p of
             (out, tw') \<Rightarrow>
               (let c1 = c\<lparr>msgWriter := (msgWriter c)\<lparr>mw_trimWriter := Some tw'\<rparr>\<rparr>
                in if out = [] then Some (c1, length p, None)
                   else (case msgWriter_write c1 out of
                           None \<Rightarrow> None
                         | Some (c2, n, Some e) \<Rightarrow> Some (c2, 0, Some e)
                         | Some (c2, n, None) \<Rightarrow> Some (c2, length p, None)))))"

text \<open>
  \<^verbatim>\<open>flate.StatelessDeflate(out, in, eof, dict)\<close> belongs to the compression library. The
  compressor is a parameter \<open>D\<close>: \<open>D inp eof dict\<close> is the list of byte blocks it writes to
  \<open>out\<close>, in order. The blocks go to the trim writer until one write fails.
\<close>

type_synonym deflater = "byte list \<Rightarrow> bool \<Rightarrow> byte list \<Rightarrow> byte list list"

fun write_blocks :: "conn \<Rightarrow> byte list list \<Rightarrow> (conn \<times> error option) option" where
  "write_blocks c [] = Some (c, None)"
| "write_blocks c (blk # blks) =
     (case trimWriter_Write c blk of
        None \<Rightarrow> None
      | Some (c', n, Some e) \<Rightarrow> Some (c', Some e)
      | Some (c', n, None) \<Rightarrow> write_blocks c' blks)"

definition StatelessDeflate ::
  "deflater \<Rightarrow> conn \<Rightarrow> byte list \<Rightarrow> bool \<Rightarrow> byte list \<Rightarrow> (conn \<times> error option) option" where
  "StatelessDeflate D c inp eof dict = write_blocks c (D inp eof dict)"

text \<open>
  \<^verbatim>\<open>msgWriter.Write\<close> (write.go, lines 139 to 164). \<^verbatim>\<open>writeMu\<close> is a plain mutex: taking it
  while it is held never returns; the deferred \<^verbatim>\<open>Unlock\<close> and \<^verbatim>\<open>errd.Wrap\<close> run on every
  return.
\<close>

definition msgWriter_Write ::
  "deflater \<Rightarrow> conn \<Rightarrow> byte list \<Rightarrow> (conn \<times> nat \<times> error option) option" where
  "msgWriter_Write D c p =
     (if mw_writeMu (msgWriter c) then None
      else
        (let c0 = c\<lparr>msgWriter := (msgWriter c)\<lparr>mw_writeMu := True\<rparr>\<rparr>
         in (case (if mw_closed (msgWriter c0) then
                     Some (c0, 0, Some (New ''cannot use closed writer''))
                   else
                     (let c1 = (if flate_enabled c0 \<and> mw_opcode (msgWriter c0) \<noteq> opContinuation
                                   \<and> int (length p) \<ge> flateThreshold c0
                                then ensureFlate c0 else c0)
                      in if mw_flate (msgWriter c1) then
                           (case StatelessDeflate D c1 p False (sw_bytes (mw_dict (msgWriter c1))) of
                              None \<Rightarrow> None
                            | Some (c2, err) \<Rightarrow>
                                Some (c2\<lparr>msgWriter := (msgWriter c2)
                                          \<lparr>mw_dict := sw_write p (mw_dict (msgWriter c2))\<rparr>\<rparr>,
                                      length p, err))
                         else msgWriter_write c1 p)) of
               None \<Rightarrow> None
             | Some (c', n, err) \<Rightarrow>
                 Some (c'\<lparr>msgWriter := (msgWriter c')\<lparr>mw_writeMu := False\<rparr>\<rparr>, n,
                       errd_Wrap ''failed to write'' err))))"

text \<open>\<^verbatim>\<open>msgWriter.Close\<close> (write.go, lines 176 to 208).\<close>

definition msgWriter_Close :: "deflater \<Rightarrow> conn \<Rightarrow> (conn \<times> error option) option" where
  "msgWriter_Close D c =
     (if mw_writeMu (msgWriter c) then None
      else
        (let c0 = c\<lparr>msgWriter := (msgWriter c)\<lparr>mw_writeMu := True\<rparr>\<rparr>
         in (case (if mw_closed (msgWriter c0) then
                     Some (c0, Some (New ''cannot use closed writer''))
                   else
                     (case (if mw_flate (msgWriter c0) then StatelessDeflate D c0 [] True []
                            else Some (c0, None)) of
                        None \<Rightarrow> None
                      | Some (c1, Some e) \<Rightarrow> Some (c1, Some (Errorf ''failed to flush flate'' e))
                      | Some (c1, None) \<Rightarrow>
                          (let c2 = c1\<lparr>msgWriter := (msgWriter c1)\<lparr>mw_closed := True\<rparr>\<rparr>
                           in (case writeFrame c2 (mw_ctx (msgWriter c2)) True
                                       (mw_flate (msgWriter c2)) (mw_opcode (msgWriter c2)) [] of
                                 None \<Rightarrow> None
                               | Some (c3, n, Some e) \<Rightarrow>
                                   Some (c3, Some (Errorf ''failed to write fin frame'' e))
                               | Some (c3, n, None) \<Rightarrow>
                                   (let c4 = (if mw_flate (msgWriter c3) \<and> \<not> flateContextTakeover c3
                                              then c3\<lparr>msgWriter := (msgWriter c3)
                                                      \<lparr>mw_dict := sw_close (mw_dict (msgWriter c3))\<rparr>\<rparr>
                                              else c3)
                                    in Some (c4\<lparr>msgWriter := (msgWriter c4)\<lparr>mw_mu := False\<rparr>\<rparr>,
                                             None)))))) of
               None \<Rightarrow> None
             | Some (c', err) \<Rightarrow>
                 Some (c'\<lparr>msgWriter := (msgWriter c')\<lparr>mw_writeMu := False\<rparr>\<rparr>,
                       errd_Wrap ''failed to close writer'' err))))"

text \<open>
  \<^verbatim>\<open>msgWriter.close\<close> (write.go, lines 210 to 213), run when the connection is torn down:
  it takes \<^verbatim>\<open>writeMu\<close> and keeps it.
\<close>

definition msgWriter_close :: "conn \<Rightarrow> conn option" where
  "msgWriter_close c =
     (if mw_writeMu (msgWriter c) then None
      else Some (c\<lparr>msgWriter := (msgWriter c)
                   \<lparr>mw_writeMu := True, mw_dict := sw_close (mw_dict (msgWriter c))\<rparr>\<rparr>))"

subsection \<open>One-shot write\<close>

text \<open>\<^verbatim>\<open>Conn.write\<close> (write.go, lines 100 to 118) and \<^verbatim>\<open>Conn.Write\<close> (lines 43 to 49).\<close>

definition Conn_write ::
  "deflater \<Rightarrow> conn \<Rightarrow> ctx \<Rightarrow> MessageType \<Rightarrow> byte list \<Rightarrow> (conn \<times> nat \<times> error option) option" where
  "Conn_write D c cx typ p =
     (case writer c cx typ of
        None \<Rightarrow> None
      | Some (c1, Some e) \<Rightarrow> Some (c1, 0, Some e)
      | Some (c1, None) \<Rightarrow>
          if \<not> flate_enabled c1 then
            (case writeFrame c1 cx True False (mw_opcode (msgWriter c1)) p of
               None \<Rightarrow> None
             | Some (c2, n, err) \<Rightarrow>
                 Some (c2\<lparr>msgWriter := (msgWriter c2)\<lparr>mw_mu := False\<rparr>\<rparr>, n, err))
          else
            (case msgWriter_Write D c1 p of
               None \<Rightarrow> None
             | Some (c2, n, Some e) \<Rightarrow> Some (c2, n, Some e)
             | Some (c2, n, None) \<Rightarrow>
                 (case msgWriter_Close D c2 of
                    None \<Rightarrow> None
                  | Some (c3, err) \<Rightarrow> Some (c3, n, err))))"

definition Conn_Write ::
  "deflater \<Rightarrow> conn \<Rightarrow> ctx \<Rightarrow> MessageType \<Rightarrow> byte list \<Rightarrow> (conn \<times> error option) option" where
  "Conn_Write D c cx typ p =
     (case Conn_write D c cx typ p of
        None \<Rightarrow> None
      | Some (c', n, Some e) \<Rightarrow> Some (c', Some (Errorf ''failed to write msg'' e))
      | Some (c', n, None) \<Rightarrow> Some (c', None))"

subsection \<open>Observations and example connections\<close>

text \<open>
  What a frame write leaves alone: the message writer, the close state and the options.
\<close>

definition writer_untouched :: "conn \<Rightarrow> conn \<Rightarrow> bool" where
  "writer_untouched c c' \<longleftrightarrow>
     msgWriter c' = msgWriter c \<and> closed c' = closed c \<and> closeErr c' = closeErr c \<and>
     client c' = client c \<and> flate_enabled c' = flate_enabled c \<and> copts c' = copts c \<and>
     flateThreshold c' = flateThreshold c"

text \<open>
  A connection right after the handshake, for the examples: an 8-byte write buffer, twelve
  bytes of random supply, a compression threshold of 2 and no context takeover for the
  server. The first argument is the role (\<open>True\<close>: client), the second whether
  compression was negotiated.
\<close>

definition fresh_conn :: "bool \<Rightarrow> bool \<Rightarrow> conn" where
  "fresh_conn cl fl =
     \<lparr>client = cl, flate_enabled = fl,
      copts = \<lparr>clientNoContextTakeover = False, serverNoContextTakeover = True\<rparr>,
      flateThreshold = 2,
      bw = \<lparr>bw_buf = replicate 8 0, bw_n = 0, bw_err = None,
            bw_wr = \<lparr>wire = [], sink_err = None\<rparr>\<rparr>,
      writeTimeout = [],
      msgWriter = \<lparr>mw_mu = False, mw_writeMu = False, mw_ctx = Background,
                   mw_opcode = opContinuation, mw_closed = False, mw_flate = False,
                   mw_trimWriter = None, mw_dict = \<lparr>sw_buf = None, sw_cap = 0\<rparr>\<rparr>,
      writeFrameMu = False,
      writeHeader = \<lparr>h_fin = False, h_rsv1 = False, h_opcode = opContinuation,
                     h_payloadLength = 0, h_masked = False, h_maskKey = 0\<rparr>,
      closed = False, closeErr = None,
      randReader = [0x11, 0x22, 0x33, 0x44, 0x55, 0x66, 0x77, 0x88, 0x99, 0xAA, 0xBB, 0xCC],
      sent = []\<rparr>"

text \<open>
  A compressor for the examples: it emits the input as one stored DEFLATE block (header
  and data written separately), then the empty stored block that ends every pass
  (\<^verbatim>\<open>00 00 00 FF FF\<close>, with the final bit set at the end of the stream).
\<close>

definition stored_deflate :: deflater where
  "stored_deflate inp eof dict =
     (if eof \<and> inp = [] then [[0x01, 0x00, 0x00, 0xFF, 0xFF]]
      else (if inp = [] then []
            else [[0x00] @ rev (be_bytes 2 (length inp)) @ rev (be_bytes 2 (65535 - length inp)),
                  inp])
           @ [[if eof then 0x01 else 0x00, 0x00, 0x00, 0xFF, 0xFF]])"

text \<open>The server connection after \<^verbatim>\<open>Writer(ctx, MessageText)\<close> has returned a writer.\<close>

definition open_writer :: conn where
  "open_writer = fst (the (writer (fresh_conn False False) Background MessageText))"

text \<open>
  A frame of the trace with the given FIN, RSV1, opcode and payload (the length field
  is the length of the payload).
\<close>

definition frame_is :: "bool \<Rightarrow> bool \<Rightarrow> opcode \<Rightarrow> byte list \<Rightarrow> header \<times> byte list \<Rightarrow> bool" where
  "frame_is fin rsv1 opc p f \<longleftrightarrow>
     h_fin (fst f) = fin \<and> h_rsv1 (fst f) = rsv1 \<and> h_opcode (fst f) = opc \<and>
     h_payloadLength (fst f) = length p \<and> snd f = p"

text \<open>
  The streaming path as an application runs it: \<^verbatim>\<open>w, err := c.Writer(ctx, typ)\<close>, then
  \<^verbatim>\<open>w.Write(p)\<close>, then \<^verbatim>\<open>w.Close()\<close>, stopping at the first error.
\<close>

definition stream_Write ::
  "deflater \<Rightarrow> conn \<Rightarrow> ctx \<Rightarrow> MessageType \<Rightarrow> byte list \<Rightarrow> (conn \<times> error option) option" where
  "stream_Write D c cx typ p =
     (case Writer c cx typ of
        None \<Rightarrow> None
      | Some (c1, Some e) \<Rightarrow> Some (c1, Some e)
      | Some (c1, None) \<Rightarrow>
          (case msgWriter_Write D c1 p of
             None \<Rightarrow> None
           | Some (c2, n, Some e) \<Rightarrow> Some (c2, Some e)
           | Some (c2, n, None) \<Rightarrow> msgWriter_Close D c2))"

text \<open>The frames a call added to the trace.\<close>

definition new_frames :: "conn \<Rightarrow> conn \<Rightarrow> (header \<times> byte list) list" where
  "new_frames c c' = drop (length (sent c)) (sent c')"

text \<open>
  Modelled from the spec: the message reader is not in \<^verbatim>\<open>write.go\<close>. The peer reads one
  message from a sequence of frames: control frames are handled aside; a text or binary
  frame begins the message and gives its type and compression flag (RSV1); continuation
  frames follow until a frame with FIN; a continuation frame with no message in progress,
  or a new data frame inside a message, is a protocol error (\<open>None\<close>, as is a sequence
  that ends before FIN). The result is the type, the compression flag and the payload.
\<close>

fun is_control :: "opcode \<Rightarrow> bool" where
  "is_control opClose = True"
| "is_control opPing = True"
| "is_control opPong = True"
| "is_control opc = False"

fun message_rest :: "(header \<times> byte list) list \<Rightarrow> byte list option" where
  "message_rest [] = None"
| "message_rest ((h, p) # fs) =
     (if is_control (h_opcode h) then message_rest fs
      else if h_opcode h \<noteq> opContinuation then None
      else if h_fin h then Some p
      else map_option (\<lambda>q. p @ q) (message_rest fs))"

fun reassemble :: "(header \<times> byte list) list \<Rightarrow> (MessageType \<times> bool \<times> byte list) option" where
  "reassemble [] = None"
| "reassemble ((h, p) # fs) =
     (if is_control (h_opcode h) then reassemble fs
      else
        (case (case h_opcode h of
                 opText \<Rightarrow> Some MessageText
               | opBinary \<Rightarrow> Some MessageBinary
               | _ \<Rightarrow> None) of
           None \<Rightarrow> None
         | Some typ \<Rightarrow>
             if h_fin h then Some (typ, h_rsv1 h, p)
             else map_option (\<lambda>q. (typ, h_rsv1 h, p @ q)) (message_rest fs)))"

text \<open>
  What the frames of a message leave alone in the writer and the connection: the locks,
  the context, the closed and compression flags, the window, the close state and the
  options. (The opcode field and the trim writer's tail do change.)
\<close>

definition session_kept :: "conn \<Rightarrow> conn \<Rightarrow> bool" where
  "session_kept c c' \<longleftrightarrow>
     mw_mu (msgWriter c') = mw_mu (msgWriter c) \<and>
     mw_writeMu (msgWriter c') = mw_writeMu (msgWriter c) \<and>
     mw_ctx (msgWriter c') = mw_ctx (msgWriter c) \<and>
     mw_closed (msgWriter c') = mw_closed (msgWriter c) \<and>
     mw_flate (msgWriter c') = mw_flate (msgWriter c) \<and>
     mw_dict (msgWriter c') = mw_dict (msgWriter c) \<and>
     (mw_trimWriter (msgWriter c') = None) = (mw_trimWriter (msgWriter c) = None) \<and>
     closed c' = closed c \<and> closeErr c' = closeErr c \<and> client c' = client c \<and>
     flate_enabled c' = flate_enabled c \<and> copts c' = copts c \<and>
     flateThreshold c' = flateThreshold c"

text \<open>The trace grew by frames without FIN.\<close>

definition nonfinal_ext :: "conn \<Rightarrow> conn \<Rightarrow> bool" where
  "nonfinal_ext c c' \<longleftrightarrow>
     take (length (sent c)) (sent c') = sent c \<and> list_all (\<lambda>g. \<not> h_fin (fst g)) (new_frames c c')"

text \<open>A server connection on which a writer was begun and whose byte stream has failed since.\<close>

definition broken_stream_writer :: conn where
  "broken_stream_writer =
     open_writer\<lparr>bw := (bw open_writer)
        \<lparr>bw_wr := (bw_wr (bw open_writer))\<lparr>sink_err := Some (SinkError ''broken pipe'')\<rparr>\<rparr>\<rparr>"

text \<open>
  A connection after a writer was begun and a write was compressed (\<open>True\<close>: the client,
  which may keep its window; \<open>False\<close>: the server, which may not).
\<close>

definition compressing_writer :: "bool \<Rightarrow> conn" where
  "compressing_writer cl =
     fst (the (msgWriter_Write stored_deflate
                 (fst (the (writer (fresh_conn cl True) Background MessageText))) [1, 2, 3]))"

text \<open>
  The calls an application makes on a writer, in order; a call is made whatever the one
  before returned.
\<close>

datatype writer_call = CallWrite "byte list" | CallClose

fun run_calls :: "deflater \<Rightarrow> conn \<Rightarrow> writer_call list \<Rightarrow> conn option" where
  "run_calls D c [] = Some c"
| "run_calls D c (CallWrite p # cs) =
     (case msgWriter_Write D c p of None \<Rightarrow> None | Some (c', n, err) \<Rightarrow> run_calls D c' cs)"
| "run_calls D c (CallClose # cs) =
     (case msgWriter_Close D c of None \<Rightarrow> None | Some (c', err) \<Rightarrow> run_calls D c' cs)"

text \<open>
  The condition of \<^verbatim>\<open>msgWriter.Write\<close> under which it calls \<^verbatim>\<open>ensureFlate\<close> (write.go,
  lines 149 to 155).
\<close>

definition activates :: "conn \<Rightarrow> byte list \<Rightarrow> bool" where
  "activates c p \<longleftrightarrow>
     flate_enabled c \<and> mw_opcode (msgWriter c) \<noteq> opContinuation \<and>
     flateThreshold c \<le> int (length p)"

text \<open>
  The frames of one message of type \<open>typ\<close>: the first carries the type's opcode and RSV1
  as given, every later one the continuation opcode with RSV1 clear.
\<close>

definition frames_ok :: "MessageType \<Rightarrow> bool \<Rightarrow> (header \<times> byte list) list \<Rightarrow> bool" where
  "frames_ok typ fl fs =
     (case fs of
        [] \<Rightarrow> True
      | f # rest \<Rightarrow>
          h_opcode (fst f) = opcode_of typ \<and> h_rsv1 (fst f) = fl \<and>
          list_all (\<lambda>g. h_opcode (fst g) = opContinuation \<and> \<not> h_rsv1 (fst g)) rest)"

text \<open>
  The state of a message of type \<open>typ\<close> begun when the trace had \<open>k\<close> frames: its frames
  so far are well-formed with RSV1 of the first equal to the compression flag, and an
  open writer's opcode field is the message type before the first frame and continuation
  after it.
\<close>

definition msg_inv :: "MessageType \<Rightarrow> nat \<Rightarrow> conn \<Rightarrow> bool" where
  "msg_inv typ k c \<longleftrightarrow>
     k \<le> length (sent c) \<and>
     frames_ok typ (mw_flate (msgWriter c)) (drop k (sent c)) \<and>
     (mw_closed (msgWriter c) \<or>
      mw_opcode (msgWriter c) = (if drop k (sent c) = [] then opcode_of typ else opContinuation))"

text \<open>A message that goes out uncompressed: the first frame is written, compression is off.\<close>

definition plain_msg :: "conn \<Rightarrow> bool" where
  "plain_msg c \<longleftrightarrow> \<not> mw_flate (msgWriter c) \<and> mw_opcode (msgWriter c) = opContinuation"

text \<open>The server connection after a writer was begun and closed with nothing written.\<close>

definition empty_message_closed :: conn where
  "empty_message_closed = fst (the (msgWriter_Close stored_deflate open_writer))"

text \<open>The message begun when the trace had \<open>k\<close> frames has no frame yet, or its first frame has no FIN.\<close>

definition first_nonfinal :: "nat \<Rightarrow> conn \<Rightarrow> bool" where
  "first_nonfinal k c = (case drop k (sent c) of [] \<Rightarrow> True | f # rest \<Rightarrow> \<not> h_fin (fst f))"

text \<open>
  When the first frame of the message has FIN (it is the frame \<^verbatim>\<open>Close\<close> wrote), the
  writer is closed and its opcode field is still the message type.
\<close>

definition close_first :: "MessageType \<Rightarrow> nat \<Rightarrow> conn \<Rightarrow> bool" where
  "close_first typ k c =
     (case drop k (sent c) of
        [] \<Rightarrow> True
      | f # rest \<Rightarrow>
          \<not> h_fin (fst f) \<or>
          (mw_closed (msgWriter c) \<and> mw_opcode (msgWriter c) = opcode_of typ))"


text \<open>
  The bytes a buffered writer has passed on or staged, in order: what the peer receives
  once the buffer is flushed.
\<close>

definition out_stream :: "bufio_Writer \<Rightarrow> byte list" where
  "out_stream b = wire (bw_wr b) @ take (bw_n b) (bw_buf b)"

text \<open>
  A healthy buffered writer: no sticky error, a byte stream that accepts writes, a
  buffer of positive size (\<^verbatim>\<open>bufio.NewWriterSize\<close> never makes an empty one) holding at
  most its size.
\<close>

definition bw_ok :: "bufio_Writer \<Rightarrow> bool" where
  "bw_ok b \<longleftrightarrow>
     bw_err b = None \<and> sink_err (bw_wr b) = None \<and> bw_n b \<le> length (bw_buf b) \<and>
     0 < length (bw_buf b)"

section \<open>Properties\<close>

lemmas write_defs =
  Conn_Write_def Conn_write_def Writer_def writer_def reset_def mu_Lock_def Background_def
  msgWriter_Write_def msgWriter_Close_def msgWriter_write_def trimWriter_Write_def
  StatelessDeflate_def ensureFlate_def flateContextTakeover_def
  writeControl_def writeFrame_def writeFrame_locked_def writeFrameHeader_def writeFramePayload_def
  writeFramePayload_loop.simps bufio_Write.simps Flush_def sink_Write_def Available_def
  Buffered_def copy_at_def header_bytes_def be_bytes_def le_bytes32_def le_uint32_def
  rotate_key_def errd_Wrap_def tw_split_def tw_reset_def sw_init_def sw_write_def sw_close_def
  sw_bytes_def WithTimeout_def Second_def

subsection \<open>What a frame write changes\<close>

lemma writeFrame_locked_untouched:
  "writeFrame_locked c cx fin fl opc p = Some (c', n, err) \<Longrightarrow>
     writer_untouched c c' \<and> writeFrameMu c' = writeFrameMu c"
  unfolding writeFrame_locked_def Let_def
  apply (simp split: if_splits option.splits prod.splits)
  apply (auto simp: writer_untouched_def)
  done

lemma writeFrame_untouched:
  "writeFrame c cx fin fl opc p = Some (c', n, err) \<Longrightarrow> writer_untouched c c'"
  unfolding writeFrame_def
  apply (simp split: if_splits option.splits prod.splits)
  apply (auto simp: writer_untouched_def dest: writeFrame_locked_untouched)
  done

lemma writeFrame_msgWriter:
  "writeFrame c cx fin fl opc p = Some (c', n, err) \<Longrightarrow> msgWriter c' = msgWriter c"
  by (drule writeFrame_untouched) (simp add: writer_untouched_def)

subsection \<open>A closed connection\<close>

lemma writeFrame_closed:
  "closed c \<Longrightarrow> closeErr c = Some e \<Longrightarrow> writeFrame c cx fin fl opc p = Some (c, 0, Some e)"
  by (simp add: writeFrame_def mu_Lock_def)

lemma writeFrame_locked_closed:
  "closed c \<Longrightarrow> writeFrame_locked c cx fin fl opc p = Some (c, 0, closeErr c)"
  by (simp add: writeFrame_locked_def)

text \<open>
  Claim C8. Once the close state is set (the closed signal, with the close cause \<open>e\<close>),
  a frame write returns at once with \<open>e\<close> as its error and leaves the connection as it
  was: nothing reaches the buffered writer, the byte stream or the trace of frames. The
  second conjunct is the guard of \<^verbatim>\<open>writeFrame\<close> itself (write.go, lines 234 to 238), for
  a caller that got the frame lock all the same.
\<close>

theorem closed_conn_rejects_frame:
  assumes "closed c" and "closeErr c = Some e"
  shows "writeFrame c cx fin fl opc p = Some (c, 0, Some e) \<and>
         writeFrame_locked c cx fin fl opc p = Some (c, 0, Some e)"
  using assms by (simp add: writeFrame_closed writeFrame_locked_closed)

theorem closed_conn_rejects_frame_witness:
  "closed ((fresh_conn True False)\<lparr>closed := True, closeErr := Some (New ''status = 1000'')\<rparr>) \<and>
   closeErr ((fresh_conn True False)\<lparr>closed := True, closeErr := Some (New ''status = 1000'')\<rparr>)
     = Some (New ''status = 1000'') \<and>
   writeFrame ((fresh_conn True False)\<lparr>closed := True, closeErr := Some (New ''status = 1000'')\<rparr>)
       Background True False opPing [1, 2, 3]
     = Some ((fresh_conn True False)\<lparr>closed := True, closeErr := Some (New ''status = 1000'')\<rparr>,
             0, Some (New ''status = 1000''))"
  using closed_conn_rejects_frame
    [of "(fresh_conn True False)\<lparr>closed := True, closeErr := Some (New ''status = 1000'')\<rparr>"
        "New ''status = 1000''" Background True False opPing "[1, 2, 3]"]
  by simp

subsection \<open>A closed writer\<close>

lemma Write_closed:
  "mw_closed (msgWriter c) \<Longrightarrow> \<not> mw_writeMu (msgWriter c) \<Longrightarrow>
   msgWriter_Write D c p =
     Some (c, 0, Some (Errorf ''failed to write'' (New ''cannot use closed writer'')))"
  by (simp add: msgWriter_Write_def errd_Wrap_def)

lemma Close_closed:
  "mw_closed (msgWriter c) \<Longrightarrow> \<not> mw_writeMu (msgWriter c) \<Longrightarrow>
   msgWriter_Close D c =
     Some (c, Some (Errorf ''failed to close writer'' (New ''cannot use closed writer'')))"
  by (simp add: msgWriter_Close_def errd_Wrap_def)

lemma Close_returns_unlocked:
  "msgWriter_Close D c = Some (c1, err) \<Longrightarrow> \<not> mw_writeMu (msgWriter c1)"
  unfolding msgWriter_Close_def Let_def
  by (simp split: if_splits option.splits prod.splits) auto

lemma Close_ok_closed:
  "msgWriter_Close D c = Some (c1, None) \<Longrightarrow> mw_closed (msgWriter c1)"
  unfolding msgWriter_Close_def Let_def errd_Wrap_def
  apply (simp split: if_splits option.splits prod.splits)
  apply (auto dest!: writeFrame_msgWriter)
  done

text \<open>
  Claim C5. After \<^verbatim>\<open>Close\<close> has succeeded on a writer, a \<^verbatim>\<open>Write\<close> returns 0 and the error
  "cannot use closed writer" (under the context string of \<^verbatim>\<open>Write\<close>), and a second
  \<^verbatim>\<open>Close\<close> returns the same error (under the context string of \<^verbatim>\<open>Close\<close>). Both leave
  the whole connection as it was: no frame is written and the writer's state is unchanged.
\<close>

theorem use_closed_writer:
  assumes "msgWriter_Close D c = Some (c1, None)"
  shows "msgWriter_Write D' c1 p =
           Some (c1, 0, Some (Errorf ''failed to write'' (New ''cannot use closed writer''))) \<and>
         msgWriter_Close D' c1 =
           Some (c1, Some (Errorf ''failed to close writer'' (New ''cannot use closed writer'')))"
  using Close_ok_closed [OF assms] Close_returns_unlocked [OF assms]
  by (simp add: Write_closed Close_closed)

theorem use_closed_writer_witness:
  "\<exists>c1. msgWriter_Close stored_deflate open_writer = Some (c1, None) \<and>
     msgWriter_Write stored_deflate c1 [1] =
       Some (c1, 0, Some (Errorf ''failed to write'' (New ''cannot use closed writer''))) \<and>
     msgWriter_Close stored_deflate c1 =
       Some (c1, Some (Errorf ''failed to close writer'' (New ''cannot use closed writer'')))"
proof -
  obtain c1 where h: "msgWriter_Close stored_deflate open_writer = Some (c1, None)"
    by (simp add: open_writer_def fresh_conn_def write_defs)
  from use_closed_writer [OF h, of stored_deflate "[1]"] h show ?thesis by blast
qed

subsection \<open>The trace of a frame write\<close>

lemma writeFrame_locked_log:
  "writeFrame_locked c k fin fl opc p = Some (c', n, err) \<Longrightarrow>
     writeTimeout c' = writeTimeout c \<or> (\<exists>rest. writeTimeout c' = writeTimeout c @ k # rest)"
  unfolding writeFrame_locked_def Let_def
  apply (simp split: if_splits option.splits prod.splits)
  apply auto
  done

lemma writeFrame_log:
  "writeFrame c k fin fl opc p = Some (c', n, err) \<Longrightarrow>
     writeTimeout c' = writeTimeout c \<or> (\<exists>rest. writeTimeout c' = writeTimeout c @ k # rest)"
  unfolding writeFrame_def
  apply (simp split: if_splits option.splits prod.splits)
  apply (auto dest: writeFrame_locked_log)
  done

lemma writeFrame_locked_ok:
  "writeFrame_locked c k fin fl opc p = Some (c', n, None) \<Longrightarrow> \<not> closed c \<Longrightarrow>
     (\<exists>f. sent c' = sent c @ [f] \<and> frame_is fin (fl \<and> (opc = opText \<or> opc = opBinary)) opc p f)"
  unfolding writeFrame_locked_def Let_def
  apply (simp split: if_splits option.splits prod.splits)
  apply (auto simp: frame_is_def)
  done

lemma writeFrame_ok:
  "writeFrame c k fin fl opc p = Some (c', n, None) \<Longrightarrow> \<not> closed c \<Longrightarrow>
     (\<exists>f. sent c' = sent c @ [f] \<and> frame_is fin (fl \<and> (opc = opText \<or> opc = opBinary)) opc p f)"
  unfolding writeFrame_def mu_Lock_def
  apply (simp split: if_splits option.splits prod.splits)
  apply (auto dest!: writeFrame_locked_ok)
  done

lemma writeFrame_locked_err:
  "writeFrame_locked c k fin fl opc p = Some (c', n, Some e) \<Longrightarrow>
     sent c' = sent c \<or>
     (fin \<and> (\<exists>f. sent c' = sent c @ [f] \<and> frame_is fin (fl \<and> (opc = opText \<or> opc = opBinary)) opc p f))"
  unfolding writeFrame_locked_def Let_def
  apply (simp split: if_splits option.splits prod.splits)
  apply (auto simp: frame_is_def)
  done

lemma writeFrame_err:
  "writeFrame c k fin fl opc p = Some (c', n, Some e) \<Longrightarrow>
     sent c' = sent c \<or>
     (fin \<and> (\<exists>f. sent c' = sent c @ [f] \<and> frame_is fin (fl \<and> (opc = opText \<or> opc = opBinary)) opc p f))"
  unfolding writeFrame_def mu_Lock_def
  apply (simp split: if_splits option.splits prod.splits)
  apply (auto dest!: writeFrame_locked_err)
  done

lemma writeFrame_held:
  "writeFrameMu c \<Longrightarrow> \<not> closed c \<Longrightarrow> ctx_err k = None \<Longrightarrow> ctx_deadline k = Some d \<Longrightarrow>
   writeFrame c k fin fl opc p = Some (c, 0, Some DeadlineExceeded)"
  by (simp add: writeFrame_def mu_Lock_def)

lemma WithTimeout_props:
  "ctx_err (WithTimeout cx d) = ctx_err cx \<and>
   (\<exists>d'. ctx_deadline (WithTimeout cx d) = Some d' \<and> d' \<le> d)"
  by (auto simp: WithTimeout_def split: option.splits)

text \<open>
  Claim C7. A control-frame write is one call of \<^verbatim>\<open>writeFrame\<close>: whatever it returns, the
  message writer (opcode, closed flag, compression flag, trim writer, window, locks) is as
  before. The context it hands to the frame write is derived from the caller's: it is done
  when the caller's is, and its deadline is at most five seconds away; it is the context
  sent to the write-timeout mailbox. With the frame lock held by someone else and a
  caller's context that never fires, the write still returns, with
  \<^verbatim>\<open>DeadlineExceeded\<close>.
\<close>

theorem control_write_bypasses_writer:
  "(\<forall>c' err. writeControl c cx opc p = Some (c', err) \<longrightarrow>
      msgWriter c' = msgWriter c \<and>
      (writeTimeout c' = writeTimeout c \<or>
       (\<exists>k d rest. writeTimeout c' = writeTimeout c @ k # rest \<and>
           ctx_err k = ctx_err cx \<and> ctx_deadline k = Some d \<and> d \<le> 5 * Second))) \<and>
   (writeFrameMu c \<and> \<not> closed c \<and> ctx_err cx = None \<longrightarrow>
      writeControl c cx opc p =
        Some (c, Some (Errorf ''failed to write control frame'' DeadlineExceeded)))"
proof (intro conjI allI impI)
  fix c' err
  assume h: "writeControl c cx opc p = Some (c', err)"
  then obtain n e where w: "writeFrame c (WithTimeout cx (Second * 5)) True False opc p = Some (c', n, e)"
    by (auto simp: writeControl_def split: option.splits prod.splits)
  from writeFrame_msgWriter [OF w] show "msgWriter c' = msgWriter c" .
  from WithTimeout_props [of cx "Second * 5"] writeFrame_log [OF w]
  show "writeTimeout c' = writeTimeout c \<or>
       (\<exists>k d rest. writeTimeout c' = writeTimeout c @ k # rest \<and>
           ctx_err k = ctx_err cx \<and> ctx_deadline k = Some d \<and> d \<le> 5 * Second)"
    by (auto simp: mult.commute)
next
  assume h: "writeFrameMu c \<and> \<not> closed c \<and> ctx_err cx = None"
  from WithTimeout_props [of cx "Second * 5"] obtain d where
    "ctx_deadline (WithTimeout cx (Second * 5)) = Some d" "ctx_err (WithTimeout cx (Second * 5)) = None"
    using h by auto
  with h show "writeControl c cx opc p =
        Some (c, Some (Errorf ''failed to write control frame'' DeadlineExceeded))"
    by (simp add: writeControl_def writeFrame_held)
qed

theorem control_write_bypasses_writer_witness:
  "(\<exists>c'. writeControl (fresh_conn False False) Background opPing [1, 2, 3] = Some (c', None) \<and>
        msgWriter c' = msgWriter (fresh_conn False False) \<and>
        writeTimeout c' = [\<lparr>ctx_err = None, ctx_deadline = Some 5000000000\<rparr>, Background]) \<and>
   writeControl ((fresh_conn False False)\<lparr>writeFrameMu := True\<rparr>) Background opPing [1, 2, 3] =
     Some ((fresh_conn False False)\<lparr>writeFrameMu := True\<rparr>,
           Some (Errorf ''failed to write control frame'' DeadlineExceeded))"
proof -
  obtain c' where h: "writeControl (fresh_conn False False) Background opPing [1, 2, 3] = Some (c', None)"
    and t: "writeTimeout c' = [\<lparr>ctx_err = None, ctx_deadline = Some 5000000000\<rparr>, Background]"
    by (simp add: fresh_conn_def write_defs)
  have g: "writeFrameMu ((fresh_conn False False)\<lparr>writeFrameMu := True\<rparr>) \<and>
           \<not> closed ((fresh_conn False False)\<lparr>writeFrameMu := True\<rparr>) \<and> ctx_err Background = None"
    by (simp add: fresh_conn_def Background_def)
  from control_write_bypasses_writer [of "fresh_conn False False" Background opPing "[1, 2, 3]"] h
  have "msgWriter c' = msgWriter (fresh_conn False False)" by blast
  moreover from control_write_bypasses_writer
    [of "(fresh_conn False False)\<lparr>writeFrameMu := True\<rparr>" Background opPing "[1, 2, 3]"] g
  have "writeControl ((fresh_conn False False)\<lparr>writeFrameMu := True\<rparr>) Background opPing [1, 2, 3] =
     Some ((fresh_conn False False)\<lparr>writeFrameMu := True\<rparr>,
           Some (Errorf ''failed to write control frame'' DeadlineExceeded))" by blast
  ultimately show ?thesis using h t by blast
qed

subsection \<open>Steps of the message writer\<close>

lemma opcode_of_data [simp]:
  "opcode_of typ \<noteq> opContinuation" "opcode_of typ = opText \<or> opcode_of typ = opBinary"
  by (cases "typ"; simp)+

lemma writer_ok:
  "writer c cx typ = Some (c1, None) \<Longrightarrow> \<not> closed c \<Longrightarrow>
     c1 = c\<lparr>msgWriter := (msgWriter c)
              \<lparr>mw_mu := True, mw_ctx := cx, mw_opcode := opcode_of typ, mw_closed := False,
               mw_flate := False,
               mw_trimWriter := map_option tw_reset (mw_trimWriter (msgWriter c))\<rparr>\<rparr>"
  unfolding writer_def reset_def mu_Lock_def
  by (simp split: if_splits option.splits prod.splits)

lemma msgWriter_write_ok:
  assumes "msgWriter_write c p = Some (c', n, None)" and "\<not> closed c"
  shows "(\<exists>f. sent c' = sent c @ [f] \<and>
          frame_is False (mw_flate (msgWriter c) \<and>
                          (mw_opcode (msgWriter c) = opText \<or> mw_opcode (msgWriter c) = opBinary))
                   (mw_opcode (msgWriter c)) p f) \<and>
     msgWriter c' = (msgWriter c)\<lparr>mw_opcode := opContinuation\<rparr> \<and>
     closed c' = closed c \<and> closeErr c' = closeErr c \<and> client c' = client c \<and>
     flate_enabled c' = flate_enabled c \<and> copts c' = copts c \<and>
     flateThreshold c' = flateThreshold c"
proof -
  from assms(1) obtain c0 where
    w: "writeFrame c (mw_ctx (msgWriter c)) False (mw_flate (msgWriter c))
          (mw_opcode (msgWriter c)) p = Some (c0, n, None)"
    and c': "c' = c0\<lparr>msgWriter := (msgWriter c0)\<lparr>mw_opcode := opContinuation\<rparr>\<rparr>"
    by (auto simp: msgWriter_write_def split: option.splits prod.splits)
  from writeFrame_untouched [OF w] writeFrame_ok [OF w assms(2)] c'
  show ?thesis by (auto simp: writer_untouched_def)
qed

lemma msgWriter_write_err:
  assumes "msgWriter_write c p = Some (c', n, Some e)"
  shows "sent c' = sent c \<and> writer_untouched c c'"
proof -
  from assms obtain e0 where
    w: "writeFrame c (mw_ctx (msgWriter c)) False (mw_flate (msgWriter c))
          (mw_opcode (msgWriter c)) p = Some (c', n, Some e0)"
    by (auto simp: msgWriter_write_def split: option.splits prod.splits)
  from writeFrame_untouched [OF w] writeFrame_err [OF w]
  show ?thesis by auto
qed

text \<open>A write that is not compressed and succeeds: one non-final frame with the payload.\<close>

lemma Write_plain_ok:
  assumes "msgWriter_Write D c p = Some (c', n, None)"
    and "\<not> closed c" and "\<not> mw_flate (msgWriter c)"
    and "\<not> (flate_enabled c \<and> mw_opcode (msgWriter c) \<noteq> opContinuation
            \<and> flateThreshold c \<le> int (length p))"
  shows "(\<exists>f. sent c' = sent c @ [f] \<and> frame_is False False (mw_opcode (msgWriter c)) p f) \<and>
     msgWriter c' = (msgWriter c)\<lparr>mw_opcode := opContinuation\<rparr> \<and>
     closed c' = closed c \<and> closeErr c' = closeErr c \<and> client c' = client c \<and>
     flate_enabled c' = flate_enabled c \<and> copts c' = copts c \<and>
     flateThreshold c' = flateThreshold c"
proof -
  let ?c0 = "c\<lparr>msgWriter := (msgWriter c)\<lparr>mw_writeMu := True\<rparr>\<rparr>"
  from assms have mu: "\<not> mw_writeMu (msgWriter c)" and ncl: "\<not> mw_closed (msgWriter c)"
    by (auto simp: msgWriter_Write_def errd_Wrap_def split: if_splits)
  from assms mu ncl obtain c1 where
    w: "msgWriter_write ?c0 p = Some (c1, n, None)"
    and c': "c' = c1\<lparr>msgWriter := (msgWriter c1)\<lparr>mw_writeMu := False\<rparr>\<rparr>"
    by (auto simp: msgWriter_Write_def Let_def errd_Wrap_def
             split: if_splits option.splits prod.splits)
  from assms(2) have "\<not> closed ?c0" by simp
  from msgWriter_write_ok [OF w this] c' mu assms(3)
  show ?thesis by (auto simp: frame_is_def)
qed

text \<open>A close without compression that succeeds: one empty frame with FIN.\<close>

lemma Close_plain_ok:
  assumes "msgWriter_Close D c = Some (c', None)"
    and "\<not> closed c" and "\<not> mw_flate (msgWriter c)"
  shows "(\<exists>f. sent c' = sent c @ [f] \<and> frame_is True False (mw_opcode (msgWriter c)) [] f) \<and>
     msgWriter c' = (msgWriter c)\<lparr>mw_closed := True, mw_mu := False\<rparr>"
proof -
  let ?c2 = "c\<lparr>msgWriter := (msgWriter c)\<lparr>mw_writeMu := True, mw_closed := True\<rparr>\<rparr>"
  from assms have mu: "\<not> mw_writeMu (msgWriter c)" and ncl: "\<not> mw_closed (msgWriter c)"
    by (auto simp: msgWriter_Close_def errd_Wrap_def split: if_splits)
  from assms mu ncl obtain c3 n where
    w: "writeFrame ?c2 (mw_ctx (msgWriter c)) True False (mw_opcode (msgWriter c)) [] = Some (c3, n, None)"
    and c': "c' = c3\<lparr>msgWriter := (msgWriter c3)\<lparr>mw_mu := False, mw_writeMu := False\<rparr>\<rparr>"
    by (auto simp: msgWriter_Close_def Let_def errd_Wrap_def
             split: if_splits option.splits prod.splits dest: writeFrame_msgWriter)
  from assms(2) have "\<not> closed ?c2" by simp
  from writeFrame_untouched [OF w] writeFrame_ok [OF w this] c' mu
  show ?thesis by (auto simp: writer_untouched_def frame_is_def)
qed


subsection \<open>One-shot write and streaming\<close>

lemma Conn_Write_ok_cases:
  assumes "Conn_Write D c cx typ p = Some (c', None)"
  obtains c1 c1' n where "writer c cx typ = Some (c1, None)" "\<not> flate_enabled c1"
      "writeFrame c1 cx True False (mw_opcode (msgWriter c1)) p = Some (c1', n, None)"
      "c' = c1'\<lparr>msgWriter := (msgWriter c1')\<lparr>mw_mu := False\<rparr>\<rparr>"
  | c1 c2 n where "writer c cx typ = Some (c1, None)" "flate_enabled c1"
      "msgWriter_Write D c1 p = Some (c2, n, None)" "msgWriter_Close D c2 = Some (c', None)"
  using assms
  by (auto simp: Conn_Write_def Conn_write_def split: option.splits prod.splits if_splits)


lemma stream_Write_ok_cases:
  assumes "stream_Write D c cx typ p = Some (c', None)"
  obtains c1 c2 n where "writer c cx typ = Some (c1, None)"
      "msgWriter_Write D c1 p = Some (c2, n, None)" "msgWriter_Close D c2 = Some (c', None)"
  using assms
  by (auto simp: stream_Write_def Writer_def split: option.splits prod.splits if_splits)

lemma reassemble_single:
  "frame_is True r (opcode_of typ) p f \<Longrightarrow> reassemble [f] = Some (typ, r, p)"
  by (cases f; cases "typ") (auto simp: frame_is_def)

lemma reassemble_pair:
  "frame_is False r (opcode_of typ) p f1 \<Longrightarrow> frame_is True r' opContinuation q f2 \<Longrightarrow>
     reassemble [f1, f2] = Some (typ, r, p @ q)"
  by (cases f1; cases f2; cases "typ") (auto simp: frame_is_def)

lemma two_frames_ok:
  assumes w: "writer c cx typ = Some (c1, None)" and ncl: "\<not> closed c"
    and wr: "msgWriter_Write D c1 p = Some (c2, n, None)"
    and cl: "msgWriter_Close D c2 = Some (c', None)"
    and plain: "\<not> (flate_enabled c \<and> flateThreshold c \<le> int (length p))"
  shows "(\<exists>f1 f2. sent c' = sent c @ [f1, f2] \<and> frame_is False False (opcode_of typ) p f1 \<and>
            frame_is True False opContinuation [] f2) \<and>
         mw_opcode (msgWriter c') = opContinuation \<and> mw_closed (msgWriter c')"
proof -
  note c1 = writer_ok [OF w ncl]
  have a: "\<not> closed c1" "\<not> mw_flate (msgWriter c1)" "mw_opcode (msgWriter c1) = opcode_of typ"
    "sent c1 = sent c"
    "\<not> (flate_enabled c1 \<and> mw_opcode (msgWriter c1) \<noteq> opContinuation
            \<and> flateThreshold c1 \<le> int (length p))"
    using ncl plain by (simp_all add: c1)
  from Write_plain_ok [OF wr a(1) a(2) a(5)] a obtain f1 where
    f1: "sent c2 = sent c @ [f1]" "frame_is False False (opcode_of typ) p f1"
    and m2: "msgWriter c2 = (msgWriter c1)\<lparr>mw_opcode := opContinuation\<rparr>" and cl2: "\<not> closed c2"
    by auto
  from m2 a have b: "\<not> mw_flate (msgWriter c2)" "mw_opcode (msgWriter c2) = opContinuation" by simp_all
  from Close_plain_ok [OF cl cl2 b(1)] b(2) f1 obtain f2 where
    "sent c' = sent c @ [f1, f2]" "frame_is True False opContinuation [] f2"
    and "msgWriter c' = (msgWriter c2)\<lparr>mw_closed := True, mw_mu := False\<rparr>"
    by auto
  with f1 b show ?thesis by auto
qed

text \<open>
  Claim C10. With compression negotiated and a payload shorter than the threshold, a
  one-shot \<^verbatim>\<open>Write\<close> that succeeds on an open connection has written two frames: a
  non-final frame with the message type's opcode, RSV1 clear and the whole payload, then
  an empty continuation frame with FIN.
\<close>

theorem one_shot_below_threshold:
  assumes "Conn_Write D c cx typ p = Some (c', None)"
    and "\<not> closed c" and "flate_enabled c" and "int (length p) < flateThreshold c"
  shows "\<exists>f1 f2. sent c' = sent c @ [f1, f2] \<and> frame_is False False (opcode_of typ) p f1 \<and>
            frame_is True False opContinuation [] f2"
proof -
  from assms(1) show ?thesis
  proof (cases rule: Conn_Write_ok_cases)
    case (1 c1 c1' n)
    with writer_ok [OF 1(1) assms(2)] assms(3) show ?thesis by simp
  next
    case (2 c1 c2 n)
    from two_frames_ok [OF 2(1) assms(2) 2(3) 2(4)] assms(4) show ?thesis by simp
  qed
qed

theorem one_shot_below_threshold_witness:
  "\<exists>c'. Conn_Write stored_deflate (fresh_conn True True) Background MessageBinary [7] = Some (c', None) \<and>
     \<not> closed (fresh_conn True True) \<and> flate_enabled (fresh_conn True True) \<and>
     int (length [7 :: byte]) < flateThreshold (fresh_conn True True) \<and>
     (\<exists>f1 f2. sent c' = sent (fresh_conn True True) @ [f1, f2] \<and>
         frame_is False False (opcode_of MessageBinary) [7] f1 \<and>
         frame_is True False opContinuation [] f2)"
proof -
  obtain c' where h: "Conn_Write stored_deflate (fresh_conn True True) Background MessageBinary [7] = Some (c', None)"
    by (simp add: fresh_conn_def write_defs)
  have g: "\<not> closed (fresh_conn True True)" "flate_enabled (fresh_conn True True)"
     "int (length [7 :: byte]) < flateThreshold (fresh_conn True True)"
    by (simp_all add: fresh_conn_def)
  from one_shot_below_threshold [OF h g] h g show ?thesis by blast
qed


lemma one_frame_ok:
  assumes "Conn_Write D c cx typ p = Some (c', None)" and "\<not> closed c" and "\<not> flate_enabled c"
  shows "(\<exists>f. sent c' = sent c @ [f] \<and> frame_is True False (opcode_of typ) p f) \<and>
         mw_opcode (msgWriter c') = opcode_of typ \<and> \<not> mw_closed (msgWriter c')"
proof -
  from assms(1) show ?thesis
  proof (cases rule: Conn_Write_ok_cases)
    case (1 c1 c1' n)
    note c1 = writer_ok [OF 1(1) assms(2)]
    have a: "\<not> closed c1" "mw_opcode (msgWriter c1) = opcode_of typ" "sent c1 = sent c"
      "\<not> mw_closed (msgWriter c1)"
      using assms(2) by (simp_all add: c1)
    from writeFrame_ok [OF 1(3) a(1)] writeFrame_msgWriter [OF 1(3)] a 1(4)
    show ?thesis by auto
  next
    case (2 c1 c2 n)
    with writer_ok [OF 2(1) assms(2)] assms(3) show ?thesis by simp
  qed
qed

lemma one_shot_is_streaming:
  assumes "flate_enabled c"
  shows "map_option fst (Conn_Write D c cx typ p) = map_option fst (stream_Write D c cx typ p)"
proof -
  have "\<And>c1 e. writer c cx typ = Some (c1, e) \<Longrightarrow> flate_enabled c1"
    using assms
    by (auto simp: writer_def reset_def split: option.splits prod.splits)
  then show ?thesis
    by (auto simp: Conn_Write_def Conn_write_def stream_Write_def Writer_def
             split: option.splits prod.splits)
qed

lemma new_frames_append: "sent c' = sent c @ fs \<Longrightarrow> new_frames c c' = fs"
  by (simp add: new_frames_def)

text \<open>
  Claim C1. On an open connection, for every payload and message type: when the one-shot
  \<^verbatim>\<open>Write\<close> and the streaming path (\<^verbatim>\<open>Writer\<close>, \<^verbatim>\<open>Write\<close>, \<^verbatim>\<open>Close\<close>) both succeed, the peer
  reassembles the same message from the frames of either. Without compression the
  one-shot path writes exactly one frame, with FIN, the message type's opcode and the
  payload, and the peer reads the type and the payload back; the writer's opcode and
  closed flag are not advanced. The streaming path gives the same message in two frames
  and does advance them. With compression negotiated the one-shot path is the streaming
  path: both leave the connection in the same state.
\<close>

theorem one_shot_equals_streaming:
  assumes "\<not> closed c"
  shows "(\<forall>c1 c2. Conn_Write D c cx typ p = Some (c1, None) \<and>
            stream_Write D c cx typ p = Some (c2, None) \<longrightarrow>
            reassemble (new_frames c c1) = reassemble (new_frames c c2)) \<and>
         (\<not> flate_enabled c \<longrightarrow>
            (\<forall>c1. Conn_Write D c cx typ p = Some (c1, None) \<longrightarrow>
               (\<exists>f. new_frames c c1 = [f] \<and> frame_is True False (opcode_of typ) p f) \<and>
               reassemble (new_frames c c1) = Some (typ, False, p) \<and>
               mw_opcode (msgWriter c1) = opcode_of typ \<and> \<not> mw_closed (msgWriter c1))) \<and>
         (\<not> flate_enabled c \<longrightarrow>
            (\<forall>c2. stream_Write D c cx typ p = Some (c2, None) \<longrightarrow>
               reassemble (new_frames c c2) = Some (typ, False, p) \<and>
               mw_opcode (msgWriter c2) = opContinuation \<and> mw_closed (msgWriter c2))) \<and>
         (flate_enabled c \<longrightarrow>
            map_option fst (Conn_Write D c cx typ p) = map_option fst (stream_Write D c cx typ p))"
proof -
  have one: "(\<exists>f. new_frames c c1 = [f] \<and> frame_is True False (opcode_of typ) p f) \<and>
               reassemble (new_frames c c1) = Some (typ, False, p) \<and>
               mw_opcode (msgWriter c1) = opcode_of typ \<and> \<not> mw_closed (msgWriter c1)"
    if "\<not> flate_enabled c" "Conn_Write D c cx typ p = Some (c1, None)" for c1
  proof -
    from one_frame_ok [OF that(2) assms that(1)] obtain f where
      f: "sent c1 = sent c @ [f]" "frame_is True False (opcode_of typ) p f"
      and m: "mw_opcode (msgWriter c1) = opcode_of typ" "\<not> mw_closed (msgWriter c1)"
      by auto
    from new_frames_append [OF f(1)] reassemble_single [OF f(2)] f(2) m show ?thesis by simp
  qed
  have two: "reassemble (new_frames c c2) = Some (typ, False, p) \<and>
               mw_opcode (msgWriter c2) = opContinuation \<and> mw_closed (msgWriter c2)"
    if "\<not> flate_enabled c" "stream_Write D c cx typ p = Some (c2, None)" for c2
  proof -
    from that(2) obtain c1 c1' n where w: "writer c cx typ = Some (c1, None)"
      "msgWriter_Write D c1 p = Some (c1', n, None)" "msgWriter_Close D c1' = Some (c2, None)"
      by (rule stream_Write_ok_cases)
    from two_frames_ok [OF w(1) assms w(2) w(3)] that(1) obtain f1 f2 where
      f: "sent c2 = sent c @ [f1, f2]" "frame_is False False (opcode_of typ) p f1"
         "frame_is True False opContinuation [] f2"
      and m: "mw_opcode (msgWriter c2) = opContinuation" "mw_closed (msgWriter c2)"
      by auto
    from new_frames_append [OF f(1)] reassemble_pair [OF f(2) f(3)] m show ?thesis by simp
  qed
  have same: "reassemble (new_frames c c1) = reassemble (new_frames c c2)"
    if h: "Conn_Write D c cx typ p = Some (c1, None)" "stream_Write D c cx typ p = Some (c2, None)"
    for c1 c2
  proof (cases "flate_enabled c")
    case True
    from one_shot_is_streaming [OF True, of D cx "typ" p] h have "c1 = c2" by simp
    then show ?thesis by simp
  next
    case False
    from one [OF False h(1)] two [OF False h(2)] show ?thesis by simp
  qed
  from one two same one_shot_is_streaming show ?thesis by blast
qed

theorem one_shot_equals_streaming_witness:
  "\<not> closed (fresh_conn True False) \<and> \<not> flate_enabled (fresh_conn True False) \<and>
   (\<exists>c1 c2. Conn_Write stored_deflate (fresh_conn True False) Background MessageText [1, 2, 3]
               = Some (c1, None) \<and>
            stream_Write stored_deflate (fresh_conn True False) Background MessageText [1, 2, 3]
               = Some (c2, None) \<and>
            reassemble (new_frames (fresh_conn True False) c1) = Some (MessageText, False, [1, 2, 3]) \<and>
            reassemble (new_frames (fresh_conn True False) c2) = Some (MessageText, False, [1, 2, 3]) \<and>
            length (new_frames (fresh_conn True False) c1) = 1 \<and>
            length (new_frames (fresh_conn True False) c2) = 2) \<and>
   \<not> closed (fresh_conn False True) \<and> flate_enabled (fresh_conn False True) \<and>
   map_option fst (Conn_Write stored_deflate (fresh_conn False True) Background MessageText [1, 2, 3]) =
   map_option fst (stream_Write stored_deflate (fresh_conn False True) Background MessageText [1, 2, 3])"
proof -
  have g: "\<not> closed (fresh_conn True False)" "\<not> flate_enabled (fresh_conn True False)"
    "\<not> closed (fresh_conn False True)" "flate_enabled (fresh_conn False True)"
    by (simp_all add: fresh_conn_def)
  obtain c1 where h1: "Conn_Write stored_deflate (fresh_conn True False) Background MessageText [1, 2, 3]
               = Some (c1, None)" and l1: "length (new_frames (fresh_conn True False) c1) = 1"
    by (simp add: fresh_conn_def write_defs new_frames_def)
  obtain c2 where h2: "stream_Write stored_deflate (fresh_conn True False) Background MessageText [1, 2, 3]
               = Some (c2, None)" and l2: "length (new_frames (fresh_conn True False) c2) = 2"
    by (simp add: fresh_conn_def stream_Write_def write_defs new_frames_def)
  note t = one_shot_equals_streaming [OF g(1), of stored_deflate Background MessageText "[1, 2, 3]"]
  from t g(2) h1 have r1: "reassemble (new_frames (fresh_conn True False) c1) = Some (MessageText, False, [1, 2, 3])"
    by blast
  from t g(2) h2 have r2: "reassemble (new_frames (fresh_conn True False) c2) = Some (MessageText, False, [1, 2, 3])"
    by blast
  from one_shot_equals_streaming [OF g(3), of stored_deflate Background MessageText "[1, 2, 3]"] g(4)
  have e: "map_option fst (Conn_Write stored_deflate (fresh_conn False True) Background MessageText [1, 2, 3]) =
   map_option fst (stream_Write stored_deflate (fresh_conn False True) Background MessageText [1, 2, 3])"
    by blast
  from g h1 h2 l1 l2 r1 r2 e show ?thesis by blast
qed

subsection \<open>Blocks through the trim writer\<close>

lemma session_kept_refl [simp]: "session_kept c c"
  by (simp add: session_kept_def)

lemma session_kept_trans: "session_kept a b \<Longrightarrow> session_kept b c \<Longrightarrow> session_kept a c"
  by (simp add: session_kept_def)

lemma nonfinal_ext_refl [simp]: "nonfinal_ext c c"
  by (simp add: nonfinal_ext_def new_frames_def)

lemma nonfinal_ext_trans:
  assumes "nonfinal_ext a b" and "nonfinal_ext b c"
  shows "nonfinal_ext a c"
proof -
  from assms obtain fs gs where b: "sent b = sent a @ fs" and c: "sent c = sent b @ gs"
    by (metis append_take_drop_id nonfinal_ext_def)
  with assms show ?thesis by (simp add: nonfinal_ext_def new_frames_def)
qed

lemma nonfinal_ext_sent: "nonfinal_ext c c' \<Longrightarrow> sent c' = sent c @ new_frames c c'"
  by (metis append_take_drop_id nonfinal_ext_def new_frames_def)

lemma msgWriter_write_kept:
  assumes "msgWriter_write c p = Some (c', n, err)"
  shows "session_kept c c'"
proof (cases err)
  case None
  with assms obtain c0 where
    w: "writeFrame c (mw_ctx (msgWriter c)) False (mw_flate (msgWriter c))
          (mw_opcode (msgWriter c)) p = Some (c0, n, None)"
    and c': "c' = c0\<lparr>msgWriter := (msgWriter c0)\<lparr>mw_opcode := opContinuation\<rparr>\<rparr>"
    by (auto simp: msgWriter_write_def split: option.splits prod.splits)
  from writeFrame_untouched [OF w] c' show ?thesis
    by (simp add: writer_untouched_def session_kept_def)
next
  case (Some e)
  with msgWriter_write_err [of c p c' n e] assms show ?thesis
    by (simp add: writer_untouched_def session_kept_def)
qed

lemma msgWriter_write_nonfinal:
  assumes "msgWriter_write c p = Some (c', n, err)" and "\<not> closed c"
  shows "nonfinal_ext c c'"
proof (cases err)
  case None
  with msgWriter_write_ok [of c p c' n] assms show ?thesis
    by (auto simp: nonfinal_ext_def new_frames_def frame_is_def)
next
  case (Some e)
  with msgWriter_write_err [of c p c' n e] assms show ?thesis
    by (simp add: nonfinal_ext_def new_frames_def)
qed

lemma trimWriter_Write_kept:
  assumes "trimWriter_Write c p = Some (c', n, err)"
  shows "session_kept c c'"
proof (cases "mw_trimWriter (msgWriter c)")
  case None
  with assms show ?thesis by (simp add: trimWriter_Write_def)
next
  case (Some tw)
  let ?c1 = "c\<lparr>msgWriter := (msgWriter c)\<lparr>mw_trimWriter := Some (snd (tw_split tw p))\<rparr>\<rparr>"
  have k1: "session_kept c ?c1" using Some by (simp add: session_kept_def)
  show ?thesis
  proof (cases "fst (tw_split tw p) = []")
    case True
    with assms Some have "c' = ?c1"
      by (auto simp: trimWriter_Write_def Let_def split: prod.splits)
    with k1 show ?thesis by simp
  next
    case False
    with assms Some obtain m e where "msgWriter_write ?c1 (fst (tw_split tw p)) = Some (c', m, e)"
      by (auto simp: trimWriter_Write_def Let_def split: prod.splits option.splits)
    from msgWriter_write_kept [OF this] k1 show ?thesis by (rule session_kept_trans [rotated])
  qed
qed

lemma trimWriter_Write_nonfinal:
  assumes "trimWriter_Write c p = Some (c', n, err)" and "\<not> closed c"
  shows "nonfinal_ext c c'"
proof (cases "mw_trimWriter (msgWriter c)")
  case None
  with assms show ?thesis by (simp add: trimWriter_Write_def)
next
  case (Some tw)
  let ?c1 = "c\<lparr>msgWriter := (msgWriter c)\<lparr>mw_trimWriter := Some (snd (tw_split tw p))\<rparr>\<rparr>"
  have k1: "nonfinal_ext c ?c1" "\<not> closed ?c1"
    using assms(2) by (simp_all add: nonfinal_ext_def new_frames_def)
  show ?thesis
  proof (cases "fst (tw_split tw p) = []")
    case True
    with assms Some have "c' = ?c1"
      by (auto simp: trimWriter_Write_def Let_def split: prod.splits)
    with k1 show ?thesis by simp
  next
    case False
    with assms Some obtain m e where "msgWriter_write ?c1 (fst (tw_split tw p)) = Some (c', m, e)"
      by (auto simp: trimWriter_Write_def Let_def split: prod.splits option.splits)
    from nonfinal_ext_trans [OF k1(1) msgWriter_write_nonfinal [OF this k1(2)]] show ?thesis .
  qed
qed

lemma write_blocks_kept:
  "write_blocks c blks = Some (c', err) \<Longrightarrow> session_kept c c'"
proof (induction blks arbitrary: c)
  case Nil
  then show ?case by simp
next
  case (Cons blk blks)
  from Cons.prems obtain c1 n e where t: "trimWriter_Write c blk = Some (c1, n, e)"
    by (auto split: option.splits)
  show ?case
  proof (cases e)
    case None
    with Cons.prems t have "write_blocks c1 blks = Some (c', err)" by simp
    from session_kept_trans [OF trimWriter_Write_kept [OF t] Cons.IH [OF this]] show ?thesis .
  next
    case (Some e')
    with Cons.prems t have "c' = c1" by simp
    with trimWriter_Write_kept [OF t] show ?thesis by simp
  qed
qed

lemma write_blocks_nonfinal:
  "write_blocks c blks = Some (c', err) \<Longrightarrow> \<not> closed c \<Longrightarrow> nonfinal_ext c c'"
proof (induction blks arbitrary: c)
  case Nil
  then show ?case by simp
next
  case (Cons blk blks)
  from Cons.prems obtain c1 n e where t: "trimWriter_Write c blk = Some (c1, n, e)"
    by (auto split: option.splits)
  from trimWriter_Write_kept [OF t] Cons.prems(2) have ncl: "\<not> closed c1"
    by (simp add: session_kept_def)
  show ?case
  proof (cases e)
    case None
    with Cons.prems t have "write_blocks c1 blks = Some (c', err)" by simp
    from nonfinal_ext_trans [OF trimWriter_Write_nonfinal [OF t Cons.prems(2)] Cons.IH [OF this ncl]]
    show ?thesis .
  next
    case (Some e')
    with Cons.prems t have "c' = c1" by simp
    with trimWriter_Write_nonfinal [OF t Cons.prems(2)] show ?thesis by simp
  qed
qed

subsection \<open>Close\<close>

lemma Close_fin_failed:
  assumes "msgWriter_Close D c =
             Some (c1, Some (Errorf ''failed to close writer'' (Errorf ''failed to write fin frame'' e)))"
  obtains c0 c3 n where
    "(if mw_flate (msgWriter c) then
        StatelessDeflate D (c\<lparr>msgWriter := (msgWriter c)\<lparr>mw_writeMu := True\<rparr>\<rparr>) [] True []
      else Some (c\<lparr>msgWriter := (msgWriter c)\<lparr>mw_writeMu := True\<rparr>\<rparr>, None)) = Some (c0, None)"
    "writeFrame (c0\<lparr>msgWriter := (msgWriter c0)\<lparr>mw_closed := True\<rparr>\<rparr>) (mw_ctx (msgWriter c0)) True
        (mw_flate (msgWriter c0)) (mw_opcode (msgWriter c0)) [] = Some (c3, n, Some e)"
    "c1 = c3\<lparr>msgWriter := (msgWriter c3)\<lparr>mw_writeMu := False\<rparr>\<rparr>"
    "\<not> mw_writeMu (msgWriter c)" "\<not> mw_closed (msgWriter c)"
  using assms unfolding msgWriter_Close_def Let_def errd_Wrap_def
  by (simp split: if_splits option.splits prod.splits) (auto)?

lemma Close_ok_cases:
  assumes "msgWriter_Close D c = Some (c', None)"
  obtains c0 c3 n where
    "(if mw_flate (msgWriter c) then
        StatelessDeflate D (c\<lparr>msgWriter := (msgWriter c)\<lparr>mw_writeMu := True\<rparr>\<rparr>) [] True []
      else Some (c\<lparr>msgWriter := (msgWriter c)\<lparr>mw_writeMu := True\<rparr>\<rparr>, None)) = Some (c0, None)"
    "writeFrame (c0\<lparr>msgWriter := (msgWriter c0)\<lparr>mw_closed := True\<rparr>\<rparr>) (mw_ctx (msgWriter c0)) True
        (mw_flate (msgWriter c0)) (mw_opcode (msgWriter c0)) [] = Some (c3, n, None)"
    "c' = (if mw_flate (msgWriter c3) \<and> \<not> flateContextTakeover c3
           then c3\<lparr>msgWriter := (msgWriter c3)\<lparr>mw_dict := sw_close (mw_dict (msgWriter c3))\<rparr>\<rparr>
           else c3)\<lparr>msgWriter := (msgWriter (if mw_flate (msgWriter c3) \<and> \<not> flateContextTakeover c3
           then c3\<lparr>msgWriter := (msgWriter c3)\<lparr>mw_dict := sw_close (mw_dict (msgWriter c3))\<rparr>\<rparr>
           else c3))\<lparr>mw_mu := False, mw_writeMu := False\<rparr>\<rparr>"
    "\<not> mw_writeMu (msgWriter c)" "\<not> mw_closed (msgWriter c)"
  using assms unfolding msgWriter_Close_def Let_def errd_Wrap_def
  by (simp split: if_splits option.splits prod.splits) (auto)?

lemma flush_kept:
  assumes "(if mw_flate (msgWriter c) then StatelessDeflate D c0 [] True [] else Some (c0, None))
             = Some (c1, err)"
  shows "session_kept c0 c1"
  using assms by (auto simp: StatelessDeflate_def split: if_splits dest: write_blocks_kept)

lemma writer_blocked:
  "mw_mu (msgWriter c) \<Longrightarrow> \<not> closed c \<Longrightarrow> writer c cx typ \<noteq> Some (c2, None)"
  by (auto simp: writer_def reset_def mu_Lock_def split: option.splits)


text \<open>
  Claim C9. When \<^verbatim>\<open>Close\<close> fails while writing the final frame (the error is "failed to write
  fin frame" under the context string of \<^verbatim>\<open>Close\<close>), the writer is marked closed and the
  ownership lock it held is still held. So a later \<^verbatim>\<open>Write\<close> or \<^verbatim>\<open>Close\<close> returns "cannot
  use closed writer" and changes nothing, and while the connection is open no call of
  \<^verbatim>\<open>Conn.writer\<close> returns a writer, whatever its context and message type.
\<close>

theorem failed_close_keeps_writer:
  assumes "msgWriter_Close D c =
             Some (c1, Some (Errorf ''failed to close writer'' (Errorf ''failed to write fin frame'' e)))"
    and "mw_mu (msgWriter c)"
  shows "mw_closed (msgWriter c1) \<and> mw_mu (msgWriter c1) \<and>
         msgWriter_Write D' c1 p =
           Some (c1, 0, Some (Errorf ''failed to write'' (New ''cannot use closed writer''))) \<and>
         msgWriter_Close D' c1 =
           Some (c1, Some (Errorf ''failed to close writer'' (New ''cannot use closed writer''))) \<and>
         (\<not> closed c1 \<longrightarrow> (\<forall>cx typ c2. writer c1 cx typ \<noteq> Some (c2, None)))"
proof -
  from assms(1) obtain c0 c3 n where
    fl: "(if mw_flate (msgWriter c) then
        StatelessDeflate D (c\<lparr>msgWriter := (msgWriter c)\<lparr>mw_writeMu := True\<rparr>\<rparr>) [] True []
      else Some (c\<lparr>msgWriter := (msgWriter c)\<lparr>mw_writeMu := True\<rparr>\<rparr>, None)) = Some (c0, None)"
    and w: "writeFrame (c0\<lparr>msgWriter := (msgWriter c0)\<lparr>mw_closed := True\<rparr>\<rparr>) (mw_ctx (msgWriter c0)) True
        (mw_flate (msgWriter c0)) (mw_opcode (msgWriter c0)) [] = Some (c3, n, Some e)"
    and c1: "c1 = c3\<lparr>msgWriter := (msgWriter c3)\<lparr>mw_writeMu := False\<rparr>\<rparr>"
    by (rule Close_fin_failed)
  from flush_kept [OF fl] assms(2) have "mw_mu (msgWriter c0)" by (simp add: session_kept_def)
  with writeFrame_msgWriter [OF w] c1
  have a: "mw_closed (msgWriter c1)" "mw_mu (msgWriter c1)" "\<not> mw_writeMu (msgWriter c1)"
    by simp_all
  from a show ?thesis by (simp add: Write_closed Close_closed writer_blocked)
qed

theorem failed_close_keeps_writer_witness:
  "\<exists>c1 e. msgWriter_Close stored_deflate broken_stream_writer =
             Some (c1, Some (Errorf ''failed to close writer'' (Errorf ''failed to write fin frame'' e))) \<and>
     mw_mu (msgWriter broken_stream_writer) \<and>
     mw_closed (msgWriter c1) \<and> mw_mu (msgWriter c1) \<and>
     msgWriter_Write stored_deflate c1 [1] =
       Some (c1, 0, Some (Errorf ''failed to write'' (New ''cannot use closed writer''))) \<and>
     msgWriter_Close stored_deflate c1 =
       Some (c1, Some (Errorf ''failed to close writer'' (New ''cannot use closed writer''))) \<and>
     \<not> closed c1 \<and> writer c1 Background MessageText = None"
proof -
  obtain c1 e where h: "msgWriter_Close stored_deflate broken_stream_writer =
             Some (c1, Some (Errorf ''failed to close writer'' (Errorf ''failed to write fin frame'' e)))"
    and o: "\<not> closed c1" "writer c1 Background MessageText = None"
    by (simp add: broken_stream_writer_def open_writer_def fresh_conn_def write_defs)
  have g: "mw_mu (msgWriter broken_stream_writer)"
    by (simp add: broken_stream_writer_def open_writer_def fresh_conn_def write_defs)
  from failed_close_keeps_writer [OF h g, where D' = stored_deflate and p = "[1]"] h g o
  show ?thesis by blast
qed

text \<open>
  Claim C4. A \<^verbatim>\<open>Close\<close> that succeeds with compression active on an open connection has
  first run the stateless DEFLATE pass with no input and \<open>final = True\<close> into the trim
  writer, which wrote frames without FIN only; then it has written one frame with FIN and
  an empty payload; and the window is released afterwards exactly when this side may not
  take its context over (a client with \<^verbatim>\<open>clientNoContextTakeover\<close>, a server with
  \<^verbatim>\<open>serverNoContextTakeover\<close>), and is as before otherwise. The writer is closed and its
  ownership lock released.
\<close>

theorem close_under_compression:
  assumes "msgWriter_Close D c = Some (c', None)" and "mw_flate (msgWriter c)" and "\<not> closed c"
  shows "\<exists>c0 f.
           StatelessDeflate D (c\<lparr>msgWriter := (msgWriter c)\<lparr>mw_writeMu := True\<rparr>\<rparr>) [] True []
             = Some (c0, None) \<and>
           nonfinal_ext c c0 \<and> sent c' = sent c0 @ [f] \<and> h_fin (fst f) \<and> snd f = [] \<and>
           mw_dict (msgWriter c') =
             (if (if client c then clientNoContextTakeover (copts c)
                  else serverNoContextTakeover (copts c))
              then sw_close (mw_dict (msgWriter c)) else mw_dict (msgWriter c)) \<and>
           mw_closed (msgWriter c') \<and> \<not> mw_mu (msgWriter c')"
proof -
  let ?c = "c\<lparr>msgWriter := (msgWriter c)\<lparr>mw_writeMu := True\<rparr>\<rparr>"
  from assms(1) obtain c0 c3 n where
    fl: "(if mw_flate (msgWriter c) then StatelessDeflate D ?c [] True []
         else Some (?c, None)) = Some (c0, None)"
    and w: "writeFrame (c0\<lparr>msgWriter := (msgWriter c0)\<lparr>mw_closed := True\<rparr>\<rparr>) (mw_ctx (msgWriter c0)) True
        (mw_flate (msgWriter c0)) (mw_opcode (msgWriter c0)) [] = Some (c3, n, None)"
    and c': "c' = (if mw_flate (msgWriter c3) \<and> \<not> flateContextTakeover c3
           then c3\<lparr>msgWriter := (msgWriter c3)\<lparr>mw_dict := sw_close (mw_dict (msgWriter c3))\<rparr>\<rparr>
           else c3)\<lparr>msgWriter := (msgWriter (if mw_flate (msgWriter c3) \<and> \<not> flateContextTakeover c3
           then c3\<lparr>msgWriter := (msgWriter c3)\<lparr>mw_dict := sw_close (mw_dict (msgWriter c3))\<rparr>\<rparr>
           else c3))\<lparr>mw_mu := False, mw_writeMu := False\<rparr>\<rparr>"
    by (rule Close_ok_cases)
  from fl assms(2) have d: "StatelessDeflate D ?c [] True [] = Some (c0, None)" by simp
  from flush_kept [OF fl] have k: "session_kept ?c c0" .
  from assms(3) have "\<not> closed ?c" by simp
  from write_blocks_nonfinal [OF d [unfolded StatelessDeflate_def] this]
  have nf: "nonfinal_ext c c0" by (simp add: nonfinal_ext_def new_frames_def)
  from k assms have k0: "\<not> closed (c0\<lparr>msgWriter := (msgWriter c0)\<lparr>mw_closed := True\<rparr>\<rparr>)"
    "mw_flate (msgWriter c0)" "mw_dict (msgWriter c0) = mw_dict (msgWriter c)"
    "client c0 = client c" "copts c0 = copts c"
    by (simp_all add: session_kept_def)
  from writeFrame_ok [OF w k0(1)] obtain f where
    f: "sent c3 = sent c0 @ [f]" "h_fin (fst f)" "snd f = []"
    by (auto simp: frame_is_def)
  from writeFrame_untouched [OF w] k0
  have m3: "msgWriter c3 = (msgWriter c0)\<lparr>mw_closed := True\<rparr>" "client c3 = client c" "copts c3 = copts c"
    by (simp_all add: writer_untouched_def)
  from c' m3 k0 f have
    "sent c' = sent c0 @ [f]"
    "mw_dict (msgWriter c') =
             (if (if client c then clientNoContextTakeover (copts c)
                  else serverNoContextTakeover (copts c))
              then sw_close (mw_dict (msgWriter c)) else mw_dict (msgWriter c))"
    "mw_closed (msgWriter c')" "\<not> mw_mu (msgWriter c')"
    by (simp_all add: flateContextTakeover_def)
  with d nf f show ?thesis by blast
qed

theorem close_under_compression_witness:
  "\<exists>c' c0 f. msgWriter_Close stored_deflate (compressing_writer False) = Some (c', None) \<and>
      mw_flate (msgWriter (compressing_writer False)) \<and> \<not> closed (compressing_writer False) \<and>
      StatelessDeflate stored_deflate
         ((compressing_writer False)\<lparr>msgWriter := (msgWriter (compressing_writer False))\<lparr>mw_writeMu := True\<rparr>\<rparr>)
         [] True [] = Some (c0, None) \<and>
      nonfinal_ext (compressing_writer False) c0 \<and> sent c' = sent c0 @ [f] \<and> h_fin (fst f) \<and> snd f = [] \<and>
      sw_buf (mw_dict (msgWriter (compressing_writer False))) = Some [1, 2, 3] \<and>
      sw_buf (mw_dict (msgWriter c')) = None"
proof -
  obtain c' where h: "msgWriter_Close stored_deflate (compressing_writer False) = Some (c', None)"
    by (simp add: compressing_writer_def fresh_conn_def stored_deflate_def write_defs)
  have g: "mw_flate (msgWriter (compressing_writer False))" "\<not> closed (compressing_writer False)"
    "sw_buf (mw_dict (msgWriter (compressing_writer False))) = Some [1, 2, 3]"
    "\<not> client (compressing_writer False)" "serverNoContextTakeover (copts (compressing_writer False))"
    by (simp_all add: compressing_writer_def fresh_conn_def stored_deflate_def write_defs)
  from close_under_compression [OF h g(1) g(2)] g(4) g(5) obtain c0 f where
    "StatelessDeflate stored_deflate
         ((compressing_writer False)\<lparr>msgWriter := (msgWriter (compressing_writer False))\<lparr>mw_writeMu := True\<rparr>\<rparr>)
         [] True [] = Some (c0, None)"
    "nonfinal_ext (compressing_writer False) c0" "sent c' = sent c0 @ [f]" "h_fin (fst f)" "snd f = []"
    "mw_dict (msgWriter c') = sw_close (mw_dict (msgWriter (compressing_writer False)))"
    by auto
  with h g show ?thesis
    by (intro exI [of _ c'] exI [of _ c0] exI [of _ f]) (simp add: sw_close_def)
qed

subsection \<open>Write\<close>

lemma Write_cases:
  assumes "msgWriter_Write D c p = Some (c', n, err)"
  obtains (closed) "mw_closed (msgWriter c)" "\<not> mw_writeMu (msgWriter c)" "c' = c"
  | (flate) c2 e where "\<not> mw_closed (msgWriter c)" "\<not> mw_writeMu (msgWriter c)"
      "mw_flate (msgWriter c) \<or> activates c p"
      "write_blocks
         (if activates c p then ensureFlate (c\<lparr>msgWriter := (msgWriter c)\<lparr>mw_writeMu := True\<rparr>\<rparr>)
          else c\<lparr>msgWriter := (msgWriter c)\<lparr>mw_writeMu := True\<rparr>\<rparr>)
         (D p False (sw_bytes (mw_dict (msgWriter
            (if activates c p then ensureFlate (c\<lparr>msgWriter := (msgWriter c)\<lparr>mw_writeMu := True\<rparr>\<rparr>)
             else c\<lparr>msgWriter := (msgWriter c)\<lparr>mw_writeMu := True\<rparr>\<rparr>))))) = Some (c2, e)"
      "c' = c2\<lparr>msgWriter := (msgWriter c2)
                \<lparr>mw_dict := sw_write p (mw_dict (msgWriter c2)), mw_writeMu := False\<rparr>\<rparr>"
  | (plain) c2 e where "\<not> mw_closed (msgWriter c)" "\<not> mw_writeMu (msgWriter c)"
      "\<not> mw_flate (msgWriter c)" "\<not> activates c p"
      "msgWriter_write (c\<lparr>msgWriter := (msgWriter c)\<lparr>mw_writeMu := True\<rparr>\<rparr>) p = Some (c2, n, e)"
      "c' = c2\<lparr>msgWriter := (msgWriter c2)\<lparr>mw_writeMu := False\<rparr>\<rparr>"
proof (cases "mw_closed (msgWriter c)")
  case True
  with assms closed show ?thesis
    by (auto simp: msgWriter_Write_def errd_Wrap_def split: if_splits)
next
  case ncl: False
  from assms have mu: "\<not> mw_writeMu (msgWriter c)"
    by (auto simp: msgWriter_Write_def split: if_splits)
  let ?c0 = "c\<lparr>msgWriter := (msgWriter c)\<lparr>mw_writeMu := True\<rparr>\<rparr>"
  let ?c1 = "if activates c p then ensureFlate ?c0 else ?c0"
  have fl: "mw_flate (msgWriter ?c1) = (mw_flate (msgWriter c) \<or> activates c p)"
    by (simp add: ensureFlate_def Let_def)
  have act: "(flate_enabled ?c0 \<and> mw_opcode (msgWriter ?c0) \<noteq> opContinuation
              \<and> flateThreshold ?c0 \<le> int (length p)) = activates c p"
    by (simp add: activates_def)
  show ?thesis
  proof (cases "mw_flate (msgWriter c) \<or> activates c p")
    case True
    with fl have f1: "mw_flate (msgWriter ?c1)" by simp
    from assms ncl mu act f1 obtain c2 e where
      "write_blocks ?c1 (D p False (sw_bytes (mw_dict (msgWriter ?c1)))) = Some (c2, e)"
      "c' = c2\<lparr>msgWriter := (msgWriter c2)
                \<lparr>mw_dict := sw_write p (mw_dict (msgWriter c2)), mw_writeMu := False\<rparr>\<rparr>"
      unfolding msgWriter_Write_def Let_def StatelessDeflate_def
      by (simp split: if_splits option.splits prod.splits) auto
    with ncl mu True flate show ?thesis by blast
  next
    case False
    with fl have f1: "\<not> mw_flate (msgWriter ?c1)" and na: "\<not> activates c p" by simp_all
    from assms ncl mu act f1 na obtain c2 e where
      "msgWriter_write ?c0 p = Some (c2, n, e)"
      "c' = c2\<lparr>msgWriter := (msgWriter c2)\<lparr>mw_writeMu := False\<rparr>\<rparr>"
      unfolding msgWriter_Write_def Let_def
      by (simp split: if_splits option.splits prod.splits) (auto)?
    with ncl mu False plain show ?thesis by blast
  qed
qed


subsection \<open>The frames of a message\<close>

lemma frames_ok_snoc:
  "frames_ok typ fl fs \<Longrightarrow> fs \<noteq> [] \<Longrightarrow> h_opcode (fst f) = opContinuation \<Longrightarrow> \<not> h_rsv1 (fst f) \<Longrightarrow>
     frames_ok typ fl (fs @ [f])"
  by (cases fs) (simp_all add: frames_ok_def)

lemma frames_ok_single:
  "h_opcode (fst f) = opcode_of typ \<Longrightarrow> h_rsv1 (fst f) = fl \<Longrightarrow> frames_ok typ fl [f]"
  by (simp add: frames_ok_def)

lemma msg_inv_frame:
  assumes inv: "msg_inv typ k c" and open_w: "\<not> mw_closed (msgWriter c)"
    and s: "sent c' = sent c @ [f]"
    and f: "h_opcode (fst f) = mw_opcode (msgWriter c)"
       "h_rsv1 (fst f) = (mw_flate (msgWriter c) \<and>
          (mw_opcode (msgWriter c) = opText \<or> mw_opcode (msgWriter c) = opBinary))"
    and fl: "mw_flate (msgWriter c') = mw_flate (msgWriter c)"
    and op: "mw_closed (msgWriter c') \<or> mw_opcode (msgWriter c') = opContinuation"
  shows "msg_inv typ k c'"
proof (cases "drop k (sent c) = []")
  case True
  with inv open_w have o: "mw_opcode (msgWriter c) = opcode_of typ" and k: "k = length (sent c)"
    by (auto simp: msg_inv_def)
  from o f opcode_of_data(2) [of "typ"] have "frames_ok typ (mw_flate (msgWriter c)) [f]"
    by (intro frames_ok_single) auto
  with k s fl op show ?thesis by (simp add: msg_inv_def)
next
  case False
  with inv open_w have o: "mw_opcode (msgWriter c) = opContinuation" and k: "k \<le> length (sent c)"
    and ok: "frames_ok typ (mw_flate (msgWriter c)) (drop k (sent c))"
    by (auto simp: msg_inv_def)
  from frames_ok_snoc [OF ok False, of f] f o
  have "frames_ok typ (mw_flate (msgWriter c)) (drop k (sent c) @ [f])" by simp
  with k s fl op False show ?thesis by (simp add: msg_inv_def)
qed

lemma msg_inv_cong:
  "msg_inv typ k c \<Longrightarrow> sent c' = sent c \<Longrightarrow> mw_flate (msgWriter c') = mw_flate (msgWriter c) \<Longrightarrow>
   mw_closed (msgWriter c') = mw_closed (msgWriter c) \<Longrightarrow>
   mw_opcode (msgWriter c') = mw_opcode (msgWriter c) \<Longrightarrow> msg_inv typ k c'"
  by (simp add: msg_inv_def)

lemma msgWriter_write_inv:
  assumes "msgWriter_write c p = Some (c', n, err)" and "msg_inv typ k c"
    and "\<not> mw_closed (msgWriter c)" and "\<not> closed c"
  shows "msg_inv typ k c'"
proof (cases err)
  case None
  with assms(1) have w: "msgWriter_write c p = Some (c', n, None)" by simp
  from msgWriter_write_ok [OF w assms(4)] obtain f where
    s: "sent c' = sent c @ [f]"
    and fr: "frame_is False (mw_flate (msgWriter c) \<and>
        (mw_opcode (msgWriter c) = opText \<or> mw_opcode (msgWriter c) = opBinary))
       (mw_opcode (msgWriter c)) p f"
    and m: "msgWriter c' = (msgWriter c)\<lparr>mw_opcode := opContinuation\<rparr>"
    by (elim conjE exE)
  from fr have a: "h_opcode (fst f) = mw_opcode (msgWriter c)"
    and b: "h_rsv1 (fst f) = (mw_flate (msgWriter c) \<and>
          (mw_opcode (msgWriter c) = opText \<or> mw_opcode (msgWriter c) = opBinary))"
    by (simp_all add: frame_is_def)
  show ?thesis
    by (rule msg_inv_frame [OF assms(2) assms(3) s a b]) (simp_all add: m)
next
  case (Some e)
  with msgWriter_write_err [of c p c' n e] assms(1) have "sent c' = sent c" "msgWriter c' = msgWriter c"
    by (simp_all add: writer_untouched_def)
  with assms(2) show ?thesis by (simp add: msg_inv_def)
qed

lemma trimWriter_Write_inv:
  assumes "trimWriter_Write c p = Some (c', n, err)" and "msg_inv typ k c"
    and "\<not> mw_closed (msgWriter c)" and "\<not> closed c"
  shows "msg_inv typ k c'"
proof (cases "mw_trimWriter (msgWriter c)")
  case None
  with assms show ?thesis by (simp add: trimWriter_Write_def)
next
  case (Some tw)
  let ?c1 = "c\<lparr>msgWriter := (msgWriter c)\<lparr>mw_trimWriter := Some (snd (tw_split tw p))\<rparr>\<rparr>"
  have k1: "msg_inv typ k ?c1" "\<not> mw_closed (msgWriter ?c1)" "\<not> closed ?c1"
    using assms by (simp_all add: msg_inv_def)
  show ?thesis
  proof (cases "fst (tw_split tw p) = []")
    case True
    with assms Some have "c' = ?c1"
      by (auto simp: trimWriter_Write_def Let_def split: prod.splits)
    with k1 show ?thesis by simp
  next
    case False
    with assms Some obtain m e where "msgWriter_write ?c1 (fst (tw_split tw p)) = Some (c', m, e)"
      by (auto simp: trimWriter_Write_def Let_def split: prod.splits option.splits)
    from msgWriter_write_inv [OF this k1] show ?thesis .
  qed
qed

lemma write_blocks_inv:
  "write_blocks c blks = Some (c', err) \<Longrightarrow> msg_inv typ k c \<Longrightarrow> \<not> mw_closed (msgWriter c) \<Longrightarrow>
   \<not> closed c \<Longrightarrow> msg_inv typ k c'"
proof (induction blks arbitrary: c)
  case Nil
  then show ?case by simp
next
  case (Cons blk blks)
  from Cons.prems obtain c1 n e where t: "trimWriter_Write c blk = Some (c1, n, e)"
    by (auto split: option.splits)
  from trimWriter_Write_kept [OF t] Cons.prems have o: "\<not> mw_closed (msgWriter c1)" "\<not> closed c1"
    by (simp_all add: session_kept_def)
  note i1 = trimWriter_Write_inv [OF t Cons.prems(2,3,4)]
  show ?case
  proof (cases e)
    case None
    with Cons.prems t have "write_blocks c1 blks = Some (c', err)" by simp
    from Cons.IH [OF this i1 o] show ?thesis .
  next
    case (Some e')
    with Cons.prems t have "c' = c1" by simp
    with i1 show ?thesis by simp
  qed
qed

lemma Write_inv:
  assumes w: "msgWriter_Write D c p = Some (c', n, err)" and inv: "msg_inv typ k c"
    and ncl: "\<not> closed c"
  shows "msg_inv typ k c' \<and> \<not> closed c'"
  using w
proof (cases rule: Write_cases)
  case closed
  with inv ncl show ?thesis by simp
next
  case (flate c2 e)
  let ?c0 = "c\<lparr>msgWriter := (msgWriter c)\<lparr>mw_writeMu := True\<rparr>\<rparr>"
  let ?c1 = "if activates c p then ensureFlate ?c0 else ?c0"
  have i1: "msg_inv typ k ?c1"
  proof (cases "activates c p")
    case True
    with inv flate(1) have "drop k (sent c) = []" "k \<le> length (sent c)"
      "mw_opcode (msgWriter c) = opcode_of typ"
      by (auto simp: msg_inv_def activates_def split: if_splits)
    with True flate(1) show ?thesis
      by (simp add: msg_inv_def ensureFlate_def Let_def frames_ok_def)
  next
    case False
    with inv show ?thesis by (simp add: msg_inv_def)
  qed
  have o1: "\<not> mw_closed (msgWriter ?c1)" "\<not> closed ?c1"
    using flate(1) ncl by (simp_all add: ensureFlate_def Let_def)
  note i2 = write_blocks_inv [OF flate(4) i1 o1]
  from write_blocks_kept [OF flate(4)] o1 have "\<not> closed c2" by (simp add: session_kept_def)
  with i2 flate(5) show ?thesis by (simp add: msg_inv_def)
next
  case (plain c2 e)
  let ?c0 = "c\<lparr>msgWriter := (msgWriter c)\<lparr>mw_writeMu := True\<rparr>\<rparr>"
  have i0: "msg_inv typ k ?c0" "\<not> mw_closed (msgWriter ?c0)" "\<not> closed ?c0"
    using inv plain(1) ncl by (simp_all add: msg_inv_def)
  note i2 = msgWriter_write_inv [OF plain(5) i0]
  from msgWriter_write_kept [OF plain(5)] i0 have "\<not> closed c2" by (simp add: session_kept_def)
  with i2 plain(6) show ?thesis by (simp add: msg_inv_def)
qed


lemma writeFrame_trace:
  assumes "writeFrame c k fin fl opc p = Some (c', n, err)" and "\<not> closed c"
  shows "sent c' = sent c \<or>
     (\<exists>f. sent c' = sent c @ [f] \<and> frame_is fin (fl \<and> (opc = opText \<or> opc = opBinary)) opc p f)"
proof (cases err)
  case None
  with writeFrame_ok [of c k fin fl opc p c' n] assms show ?thesis by simp
next
  case (Some e)
  with writeFrame_err [of c k fin fl opc p c' n e] assms show ?thesis by auto
qed

lemma Close_cases:
  assumes "msgWriter_Close D c = Some (c', err)"
  obtains (closed) "mw_closed (msgWriter c)" "\<not> mw_writeMu (msgWriter c)" "c' = c"
  | (flush) c0 e where "\<not> mw_closed (msgWriter c)" "\<not> mw_writeMu (msgWriter c)"
      "mw_flate (msgWriter c)"
      "write_blocks (c\<lparr>msgWriter := (msgWriter c)\<lparr>mw_writeMu := True\<rparr>\<rparr>) (D [] True [])
         = Some (c0, Some e)"
      "c' = c0\<lparr>msgWriter := (msgWriter c0)\<lparr>mw_writeMu := False\<rparr>\<rparr>"
  | (fin) c0 c3 n e where "\<not> mw_closed (msgWriter c)" "\<not> mw_writeMu (msgWriter c)"
      "(if mw_flate (msgWriter c) then
          write_blocks (c\<lparr>msgWriter := (msgWriter c)\<lparr>mw_writeMu := True\<rparr>\<rparr>) (D [] True [])
        else Some (c\<lparr>msgWriter := (msgWriter c)\<lparr>mw_writeMu := True\<rparr>\<rparr>, None)) = Some (c0, None)"
      "writeFrame (c0\<lparr>msgWriter := (msgWriter c0)\<lparr>mw_closed := True\<rparr>\<rparr>) (mw_ctx (msgWriter c0)) True
        (mw_flate (msgWriter c0)) (mw_opcode (msgWriter c0)) [] = Some (c3, n, e)"
      "sent c' = sent c3" "closed c' = closed c3"
      "mw_flate (msgWriter c') = mw_flate (msgWriter c3)"
      "mw_closed (msgWriter c') = mw_closed (msgWriter c3)"
      "mw_opcode (msgWriter c') = mw_opcode (msgWriter c3)"
proof (cases "mw_closed (msgWriter c)")
  case True
  with assms closed show ?thesis
    by (auto simp: msgWriter_Close_def errd_Wrap_def split: if_splits)
next
  case ncl: False
  from assms have mu: "\<not> mw_writeMu (msgWriter c)"
    by (auto simp: msgWriter_Close_def split: if_splits)
  let ?c0 = "c\<lparr>msgWriter := (msgWriter c)\<lparr>mw_writeMu := True\<rparr>\<rparr>"
  let ?fl = "if mw_flate (msgWriter c) then write_blocks ?c0 (D [] True []) else Some (?c0, None)"
  from assms ncl mu obtain c0 e0 where f: "?fl = Some (c0, e0)"
    unfolding msgWriter_Close_def Let_def StatelessDeflate_def
    by (simp split: if_splits option.splits prod.splits) (auto)?
  show ?thesis
  proof (cases e0)
    case (Some e)
    with f have wb: "write_blocks ?c0 (D [] True []) = Some (c0, Some e)"
      and fl: "mw_flate (msgWriter c)"
      by (simp_all split: if_splits)
    with assms ncl mu have "c' = c0\<lparr>msgWriter := (msgWriter c0)\<lparr>mw_writeMu := False\<rparr>\<rparr>"
      unfolding msgWriter_Close_def Let_def StatelessDeflate_def
      by (simp split: if_splits option.splits prod.splits)
    with ncl mu wb fl flush show ?thesis by blast
  next
    case None
    with assms ncl mu f obtain c3 n e where
      w: "writeFrame (c0\<lparr>msgWriter := (msgWriter c0)\<lparr>mw_closed := True\<rparr>\<rparr>) (mw_ctx (msgWriter c0)) True
        (mw_flate (msgWriter c0)) (mw_opcode (msgWriter c0)) [] = Some (c3, n, e)"
      and r: "sent c' = sent c3 \<and> closed c' = closed c3 \<and>
        mw_flate (msgWriter c') = mw_flate (msgWriter c3) \<and>
        mw_closed (msgWriter c') = mw_closed (msgWriter c3) \<and>
        mw_opcode (msgWriter c') = mw_opcode (msgWriter c3)"
      unfolding msgWriter_Close_def Let_def StatelessDeflate_def
      by (simp split: if_splits option.splits prod.splits) (auto)?
    with ncl mu f None fin show ?thesis by blast
  qed
qed

lemma Close_inv:
  assumes cl: "msgWriter_Close D c = Some (c', err)" and inv: "msg_inv typ k c"
    and ncl: "\<not> closed c"
  shows "msg_inv typ k c' \<and> \<not> closed c'"
  using cl
proof (cases rule: Close_cases)
  case closed
  with inv ncl show ?thesis by simp
next
  case (flush c0 e)
  let ?c0 = "c\<lparr>msgWriter := (msgWriter c)\<lparr>mw_writeMu := True\<rparr>\<rparr>"
  have i0: "msg_inv typ k ?c0" "\<not> mw_closed (msgWriter ?c0)" "\<not> closed ?c0"
    using inv flush(1) ncl by (simp_all add: msg_inv_def)
  note i1 = write_blocks_inv [OF flush(4) i0]
  from write_blocks_kept [OF flush(4)] i0 have "\<not> closed c0" by (simp add: session_kept_def)
  with i1 flush(5) show ?thesis by (simp add: msg_inv_def)
next
  case (fin c0 c3 n e)
  let ?c0 = "c\<lparr>msgWriter := (msgWriter c)\<lparr>mw_writeMu := True\<rparr>\<rparr>"
  have i0: "msg_inv typ k ?c0" "\<not> mw_closed (msgWriter ?c0)" "\<not> closed ?c0"
    using inv fin(1) ncl by (simp_all add: msg_inv_def)
  have i1: "msg_inv typ k c0 \<and> \<not> mw_closed (msgWriter c0) \<and> \<not> closed c0"
  proof (cases "mw_flate (msgWriter c)")
    case True
    with fin(3) have wb: "write_blocks ?c0 (D [] True []) = Some (c0, None)" by simp
    from write_blocks_inv [OF wb i0] write_blocks_kept [OF wb] i0 show ?thesis
      by (simp add: session_kept_def)
  next
    case False
    with fin(3) i0 show ?thesis by auto
  qed
  let ?c2 = "c0\<lparr>msgWriter := (msgWriter c0)\<lparr>mw_closed := True\<rparr>\<rparr>"
  from i1 have ncl2: "\<not> closed ?c2" by simp
  from writeFrame_untouched [OF fin(4)] have m3: "msgWriter c3 = msgWriter ?c2" "closed c3 = closed ?c2"
    by (simp_all add: writer_untouched_def)
  from writeFrame_trace [OF fin(4) ncl2] have "msg_inv typ k c3"
  proof
    assume "sent c3 = sent ?c2"
    with i1 m3 show ?thesis by (simp add: msg_inv_def)
  next
    assume "\<exists>f. sent c3 = sent ?c2 @ [f] \<and>
       frame_is True (mw_flate (msgWriter c0) \<and>
          (mw_opcode (msgWriter c0) = opText \<or> mw_opcode (msgWriter c0) = opBinary))
         (mw_opcode (msgWriter c0)) [] f"
    then obtain f where s': "sent c3 = sent ?c2 @ [f]"
      and fr: "frame_is True (mw_flate (msgWriter c0) \<and>
          (mw_opcode (msgWriter c0) = opText \<or> mw_opcode (msgWriter c0) = opBinary))
         (mw_opcode (msgWriter c0)) [] f"
      by (elim exE conjE)
    from s' have s: "sent c3 = sent c0 @ [f]" by simp
    from fr have a: "h_opcode (fst f) = mw_opcode (msgWriter c0)"
      and b: "h_rsv1 (fst f) = (mw_flate (msgWriter c0) \<and>
          (mw_opcode (msgWriter c0) = opText \<or> mw_opcode (msgWriter c0) = opBinary))"
      by (simp_all add: frame_is_def)
    from i1 have inv0: "msg_inv typ k c0" and o0: "\<not> mw_closed (msgWriter c0)" by simp_all
    show ?thesis by (rule msg_inv_frame [OF inv0 o0 s a b]) (simp_all add: m3)
  qed
  with fin(5-9) m3 ncl2 show ?thesis by (simp add: msg_inv_def)
qed

lemma run_calls_inv:
  "run_calls D c calls = Some c' \<Longrightarrow> msg_inv typ k c \<Longrightarrow> \<not> closed c \<Longrightarrow> msg_inv typ k c'"
proof (induction calls arbitrary: c)
  case Nil
  then show ?case by simp
next
  case (Cons a calls)
  show ?case
  proof (cases a)
    case (CallWrite p)
    with Cons.prems obtain c1 n e where w: "msgWriter_Write D c p = Some (c1, n, e)"
      and r: "run_calls D c1 calls = Some c'"
      by (auto split: option.splits)
    from Write_inv [OF w Cons.prems(2,3)] Cons.IH [OF r] show ?thesis by simp
  next
    case CallClose
    with Cons.prems obtain c1 e where w: "msgWriter_Close D c = Some (c1, e)"
      and r: "run_calls D c1 calls = Some c'"
      by (auto split: option.splits)
    from Close_inv [OF w Cons.prems(2,3)] Cons.IH [OF r] show ?thesis by simp
  qed
qed

lemma writer_inv:
  "writer c cx typ = Some (c0, None) \<Longrightarrow> \<not> closed c \<Longrightarrow>
     msg_inv typ (length (sent c)) c0 \<and> \<not> closed c0"
  by (drule (1) writer_ok) (simp add: msg_inv_def frames_ok_def)


subsection \<open>Activation of compression\<close>

lemma Write_flag:
  assumes w: "msgWriter_Write D c p = Some (c', n, err)" and o: "\<not> mw_closed (msgWriter c)"
  shows "mw_flate (msgWriter c') = (mw_flate (msgWriter c) \<or> activates c p) \<and>
         (activates c p \<longrightarrow>
            mw_trimWriter (msgWriter c') \<noteq> None \<and>
            mw_dict (msgWriter c') = sw_write p (sw_init 8192 (mw_dict (msgWriter c))))"
  using w
proof (cases rule: Write_cases)
  case closed
  with o show ?thesis by simp
next
  case (flate c2 e)
  from write_blocks_kept [OF flate(4)] flate(3,5) show ?thesis
    by (auto simp: session_kept_def ensureFlate_def Let_def split: if_splits)
next
  case (plain c2 e)
  from msgWriter_write_kept [OF plain(5)] plain(3,4,6) show ?thesis
    by (simp add: session_kept_def)
qed

lemma Write_plain:
  assumes w: "msgWriter_Write D c p = Some (c', n, err)" and p: "plain_msg c"
  shows "plain_msg c'"
  using w
proof (cases rule: Write_cases)
  case closed
  with p show ?thesis by simp
next
  case (flate c2 e)
  with p show ?thesis by (simp add: plain_msg_def activates_def)
next
  case (plain c2 e)
  show ?thesis
  proof (cases e)
    case None
    with plain(5) have "mw_opcode (msgWriter c2) = opContinuation"
      by (auto simp: msgWriter_write_def split: option.splits prod.splits)
    with msgWriter_write_kept [OF plain(5)] plain(3,6) show ?thesis
      by (simp add: plain_msg_def session_kept_def)
  next
    case (Some e')
    with msgWriter_write_err [of _ p c2 n e'] plain(5) p plain(6) show ?thesis
      by (simp add: plain_msg_def writer_untouched_def)
  qed
qed

lemma Close_plain:
  assumes w: "msgWriter_Close D c = Some (c', err)" and p: "plain_msg c"
  shows "plain_msg c'"
  using w
proof (cases rule: Close_cases)
  case closed
  with p show ?thesis by simp
next
  case (flush c0 e)
  with p show ?thesis by (simp add: plain_msg_def)
next
  case (fin c0 c3 n e)
  from fin(3) p have "c0 = c\<lparr>msgWriter := (msgWriter c)\<lparr>mw_writeMu := True\<rparr>\<rparr>"
    by (simp add: plain_msg_def)
  with writeFrame_msgWriter [OF fin(4)] fin(7,9) p show ?thesis
    by (simp add: plain_msg_def)
qed

lemma run_calls_plain:
  "run_calls D c calls = Some c' \<Longrightarrow> plain_msg c \<Longrightarrow> plain_msg c'"
proof (induction calls arbitrary: c)
  case Nil
  then show ?case by simp
next
  case (Cons a calls)
  show ?case
  proof (cases a)
    case (CallWrite p)
    with Cons.prems obtain c1 n e where w: "msgWriter_Write D c p = Some (c1, n, e)"
      and r: "run_calls D c1 calls = Some c'"
      by (auto split: option.splits)
    from Cons.IH [OF r Write_plain [OF w Cons.prems(2)]] show ?thesis .
  next
    case CallClose
    with Cons.prems obtain c1 e where w: "msgWriter_Close D c = Some (c1, e)"
      and r: "run_calls D c1 calls = Some c'"
      by (auto split: option.splits)
    from Cons.IH [OF r Close_plain [OF w Cons.prems(2)]] show ?thesis .
  qed
qed

lemma frames_ok_plain: "frames_ok typ False fs \<Longrightarrow> list_all (\<lambda>f. \<not> h_rsv1 (fst f)) fs"
  by (cases fs) (auto simp: frames_ok_def list_all_iff)

text \<open>
  Claim C2. A \<^verbatim>\<open>Write\<close> on an open writer leaves the compression flag set exactly when it
  was set before or this call meets the condition (compression negotiated, the opcode
  field not continuation, the input at least \<^verbatim>\<open>flateThreshold\<close> long); a writer just
  begun has the flag clear, so within a message the flag is set by the first such call.
  That call attaches the trim writer and leaves the window initialised with capacity 8192
  (unless it was already there) and holding the input. After a first write below the
  threshold has succeeded on an open connection, whatever calls follow on that writer,
  the flag stays clear and no frame of the message carries RSV1.
\<close>

theorem compression_activation:
  "(\<forall>c0. writer c cx typ = Some (c0, None) \<longrightarrow> \<not> mw_flate (msgWriter c0)) \<and>
   (\<forall>c' n err. \<not> mw_closed (msgWriter c) \<and> msgWriter_Write D c p = Some (c', n, err) \<longrightarrow>
      mw_flate (msgWriter c') =
        (mw_flate (msgWriter c) \<or>
         (flate_enabled c \<and> mw_opcode (msgWriter c) \<noteq> opContinuation \<and>
          flateThreshold c \<le> int (length p))) \<and>
      (flate_enabled c \<and> mw_opcode (msgWriter c) \<noteq> opContinuation \<and>
         flateThreshold c \<le> int (length p) \<longrightarrow>
         mw_trimWriter (msgWriter c') \<noteq> None \<and>
         mw_dict (msgWriter c') = sw_write p (sw_init 8192 (mw_dict (msgWriter c))))) \<and>
   (\<forall>c0 c1 n calls c'.
      \<not> closed c \<and> writer c cx typ = Some (c0, None) \<and> int (length p) < flateThreshold c \<and>
      msgWriter_Write D c0 p = Some (c1, n, None) \<and> run_calls D c1 calls = Some c' \<longrightarrow>
      \<not> mw_flate (msgWriter c') \<and> list_all (\<lambda>f. \<not> h_rsv1 (fst f)) (new_frames c c'))"
proof (intro conjI allI impI)
  fix c0 assume "writer c cx typ = Some (c0, None)"
  then show "\<not> mw_flate (msgWriter c0)"
    by (auto simp: writer_def reset_def split: option.splits prod.splits)
next
  fix c' n err
  assume h: "\<not> mw_closed (msgWriter c) \<and> msgWriter_Write D c p = Some (c', n, err)"
  then have w: "msgWriter_Write D c p = Some (c', n, err)" and o: "\<not> mw_closed (msgWriter c)"
    by simp_all
  from Write_flag [OF w o]
  show "mw_flate (msgWriter c') =
        (mw_flate (msgWriter c) \<or>
         (flate_enabled c \<and> mw_opcode (msgWriter c) \<noteq> opContinuation \<and>
          flateThreshold c \<le> int (length p)))"
    by (simp add: activates_def)
  assume "flate_enabled c \<and> mw_opcode (msgWriter c) \<noteq> opContinuation \<and>
         flateThreshold c \<le> int (length p)"
  with Write_flag [OF w o]
  show "mw_trimWriter (msgWriter c') \<noteq> None"
    and "mw_dict (msgWriter c') = sw_write p (sw_init 8192 (mw_dict (msgWriter c)))"
    by (simp_all add: activates_def)
next
  fix c0 c1 n calls c'
  assume h: "\<not> closed c \<and> writer c cx typ = Some (c0, None) \<and> int (length p) < flateThreshold c \<and>
      msgWriter_Write D c0 p = Some (c1, n, None) \<and> run_calls D c1 calls = Some c'"
  then have ncl: "\<not> closed c" and w0: "writer c cx typ = Some (c0, None)"
    and small: "int (length p) < flateThreshold c"
    and w1: "msgWriter_Write D c0 p = Some (c1, n, None)" and r: "run_calls D c1 calls = Some c'"
    by simp_all
  note c0 = writer_ok [OF w0 ncl]
  have a: "\<not> closed c0" "\<not> mw_flate (msgWriter c0)"
    "\<not> (flate_enabled c0 \<and> mw_opcode (msgWriter c0) \<noteq> opContinuation
            \<and> flateThreshold c0 \<le> int (length p))"
    using ncl small by (simp_all add: c0)
  from Write_plain_ok [OF w1 a] a(2) have p1: "plain_msg c1" by (simp add: plain_msg_def)
  from run_calls_plain [OF r p1] have p': "plain_msg c'" .
  from writer_inv [OF w0 ncl] have i0: "msg_inv typ (length (sent c)) c0" "\<not> closed c0" by simp_all
  from Write_inv [OF w1 i0] have i1: "msg_inv typ (length (sent c)) c1" "\<not> closed c1" by simp_all
  from run_calls_inv [OF r i1] p' have "frames_ok typ False (new_frames c c')"
    by (simp add: msg_inv_def new_frames_def plain_msg_def)
  from frames_ok_plain [OF this] p'
  show "\<not> mw_flate (msgWriter c')" and "list_all (\<lambda>f. \<not> h_rsv1 (fst f)) (new_frames c c')"
    by (simp_all add: plain_msg_def)
qed


theorem compression_activation_witness:
  "\<exists>c0 c1 n c2 m c'.
     writer (fresh_conn False True) Background MessageText = Some (c0, None) \<and>
     \<not> mw_flate (msgWriter c0) \<and> \<not> mw_closed (msgWriter c0) \<and>
     msgWriter_Write stored_deflate c0 [1, 2, 3] = Some (c1, n, None) \<and>
     flate_enabled c0 \<and> mw_opcode (msgWriter c0) \<noteq> opContinuation \<and>
     flateThreshold c0 \<le> int (length [1, 2, 3 :: byte]) \<and>
     mw_flate (msgWriter c1) \<and> mw_trimWriter (msgWriter c1) \<noteq> None \<and>
     mw_dict (msgWriter c1) = \<lparr>sw_buf = Some [1, 2, 3], sw_cap = 8192\<rparr> \<and>
     \<not> closed (fresh_conn False True) \<and>
     int (length [7 :: byte]) < flateThreshold (fresh_conn False True) \<and>
     msgWriter_Write stored_deflate c0 [7] = Some (c2, m, None) \<and>
     run_calls stored_deflate c2 [CallWrite [1, 2, 3], CallClose] = Some c' \<and>
     \<not> mw_flate (msgWriter c') \<and>
     list_all (\<lambda>f. \<not> h_rsv1 (fst f)) (new_frames (fresh_conn False True) c') \<and>
     length (new_frames (fresh_conn False True) c') = 3"
proof -
  obtain c0 where w0: "writer (fresh_conn False True) Background MessageText = Some (c0, None)"
    and c0: "c0 = fst (the (writer (fresh_conn False True) Background MessageText))"
    by (simp add: fresh_conn_def write_defs)
  have g0: "\<not> mw_closed (msgWriter c0)" "flate_enabled c0" "mw_opcode (msgWriter c0) \<noteq> opContinuation"
    "flateThreshold c0 \<le> int (length [1, 2, 3 :: byte])"
    "sw_write [1, 2, 3] (sw_init 8192 (mw_dict (msgWriter c0))) = \<lparr>sw_buf = Some [1, 2, 3], sw_cap = 8192\<rparr>"
    by (simp_all add: c0 fresh_conn_def write_defs)
  have g: "\<not> closed (fresh_conn False True)" "int (length [7 :: byte]) < flateThreshold (fresh_conn False True)"
    by (simp_all add: fresh_conn_def)
  obtain c1 n where w1: "msgWriter_Write stored_deflate c0 [1, 2, 3] = Some (c1, n, None)"
    by (simp add: c0 fresh_conn_def stored_deflate_def write_defs)
  obtain c2 m where w2: "msgWriter_Write stored_deflate c0 [7] = Some (c2, m, None)"
    and c2: "c2 = fst (the (msgWriter_Write stored_deflate c0 [7]))"
    by (simp add: c0 fresh_conn_def stored_deflate_def write_defs)
  obtain c' where r: "run_calls stored_deflate c2 [CallWrite [1, 2, 3], CallClose] = Some c'"
    and l: "length (new_frames (fresh_conn False True) c') = 3"
    by (simp add: c2 c0 fresh_conn_def stored_deflate_def write_defs new_frames_def)
  note t1 = compression_activation [of "fresh_conn False True" Background MessageText stored_deflate "[1, 2, 3]"]
  from t1 w0 have a: "\<not> mw_flate (msgWriter c0)" by blast
  note t2 = compression_activation [of c0 Background MessageText stored_deflate "[1, 2, 3]"]
  from t2 g0(1-4) w1 have b: "mw_flate (msgWriter c1)" "mw_trimWriter (msgWriter c1) \<noteq> None"
    "mw_dict (msgWriter c1) = sw_write [1, 2, 3] (sw_init 8192 (mw_dict (msgWriter c0)))"
    by blast+
  note t3 = compression_activation [of "fresh_conn False True" Background MessageText stored_deflate "[7]"]
  from t3 g w0 w2 r have d: "\<not> mw_flate (msgWriter c')"
    "list_all (\<lambda>f. \<not> h_rsv1 (fst f)) (new_frames (fresh_conn False True) c')"
    by blast+
  from w0 a g0 w1 b g w2 r d l show ?thesis by (intro exI [of _ c0] exI [of _ c1] exI [of _ n]
      exI [of _ c2] exI [of _ m] exI [of _ c']) simp
qed


subsection \<open>A message whose first frame is written by Close\<close>

lemma close_first_open:
  "close_first typ k c \<Longrightarrow> \<not> mw_closed (msgWriter c) \<Longrightarrow> first_nonfinal k c"
  by (auto simp: close_first_def first_nonfinal_def split: list.splits)

lemma first_nonfinal_close_first: "first_nonfinal k c \<Longrightarrow> close_first typ k c"
  by (auto simp: close_first_def first_nonfinal_def split: list.splits)

lemma first_nonfinal_sent: "first_nonfinal k c \<Longrightarrow> sent c' = sent c \<Longrightarrow> first_nonfinal k c'"
  by (simp add: first_nonfinal_def)

lemma first_nonfinal_ext:
  assumes "first_nonfinal k c" and "nonfinal_ext c c'" and "k \<le> length (sent c)"
  shows "first_nonfinal k c'"
proof -
  from nonfinal_ext_sent [OF assms(2)] assms(3)
  have d: "drop k (sent c') = drop k (sent c) @ new_frames c c'" by simp
  from assms(2) have nf: "list_all (\<lambda>g. \<not> h_fin (fst g)) (new_frames c c')"
    by (simp add: nonfinal_ext_def)
  show ?thesis
  proof (cases "drop k (sent c)")
    case Nil
    with d nf show ?thesis by (cases "new_frames c c'") (simp_all add: first_nonfinal_def)
  next
    case (Cons f rest)
    with d assms(1) show ?thesis by (simp add: first_nonfinal_def)
  qed
qed

lemma Write_close_first:
  assumes w: "msgWriter_Write D c p = Some (c', n, err)" and inv: "msg_inv typ k c"
    and cf: "close_first typ k c" and ncl: "\<not> closed c"
  shows "close_first typ k c'"
  using w
proof (cases rule: Write_cases)
  case closed
  with cf show ?thesis by simp
next
  case (flate c2 e)
  let ?c0 = "c\<lparr>msgWriter := (msgWriter c)\<lparr>mw_writeMu := True\<rparr>\<rparr>"
  let ?c1 = "if activates c p then ensureFlate ?c0 else ?c0"
  from inv have k: "k \<le> length (sent ?c1)" by (simp add: msg_inv_def ensureFlate_def Let_def)
  have s1: "sent ?c1 = sent c" "\<not> closed ?c1" using ncl by (simp_all add: ensureFlate_def Let_def)
  from first_nonfinal_sent [OF close_first_open [OF cf flate(1)] s1(1)]
  have "first_nonfinal k ?c1" .
  from first_nonfinal_ext [OF this write_blocks_nonfinal [OF flate(4) s1(2)] k]
  have "first_nonfinal k c2" .
  with flate(5) have "first_nonfinal k c'" by (simp add: first_nonfinal_def)
  then show ?thesis by (rule first_nonfinal_close_first)
next
  case (plain c2 e)
  let ?c0 = "c\<lparr>msgWriter := (msgWriter c)\<lparr>mw_writeMu := True\<rparr>\<rparr>"
  from inv have k: "k \<le> length (sent ?c0)" by (simp add: msg_inv_def)
  have s1: "sent ?c0 = sent c" "\<not> closed ?c0" using ncl by simp_all
  from first_nonfinal_sent [OF close_first_open [OF cf plain(1)] s1(1)]
  have "first_nonfinal k ?c0" .
  from first_nonfinal_ext [OF this msgWriter_write_nonfinal [OF plain(5) s1(2)] k]
  have "first_nonfinal k c2" .
  with plain(6) have "first_nonfinal k c'" by (simp add: first_nonfinal_def)
  then show ?thesis by (rule first_nonfinal_close_first)
qed

lemma Close_close_first:
  assumes cl: "msgWriter_Close D c = Some (c', err)" and inv: "msg_inv typ k c"
    and cf: "close_first typ k c" and ncl: "\<not> closed c"
  shows "close_first typ k c'"
  using cl
proof (cases rule: Close_cases)
  case closed
  with cf show ?thesis by simp
next
  case (flush c0 e)
  let ?c0 = "c\<lparr>msgWriter := (msgWriter c)\<lparr>mw_writeMu := True\<rparr>\<rparr>"
  from inv have k: "k \<le> length (sent ?c0)" by (simp add: msg_inv_def)
  have s1: "sent ?c0 = sent c" "\<not> closed ?c0" using ncl by simp_all
  from first_nonfinal_sent [OF close_first_open [OF cf flush(1)] s1(1)]
  have "first_nonfinal k ?c0" .
  from first_nonfinal_ext [OF this write_blocks_nonfinal [OF flush(4) s1(2)] k]
  have "first_nonfinal k c0" .
  with flush(5) have "first_nonfinal k c'" by (simp add: first_nonfinal_def)
  then show ?thesis by (rule first_nonfinal_close_first)
next
  case (fin c0 c3 n e)
  let ?c0 = "c\<lparr>msgWriter := (msgWriter c)\<lparr>mw_writeMu := True\<rparr>\<rparr>"
  have i0: "msg_inv typ k ?c0" "\<not> mw_closed (msgWriter ?c0)" "\<not> closed ?c0"
    using inv fin(1) ncl by (simp_all add: msg_inv_def)
  from inv have k: "k \<le> length (sent ?c0)" by (simp add: msg_inv_def)
  from first_nonfinal_sent [OF close_first_open [OF cf fin(1)], of ?c0]
  have f0: "first_nonfinal k ?c0" by simp
  have i1: "msg_inv typ k c0 \<and> \<not> mw_closed (msgWriter c0) \<and> \<not> closed c0 \<and> first_nonfinal k c0"
  proof (cases "mw_flate (msgWriter c)")
    case True
    with fin(3) have wb: "write_blocks ?c0 (D [] True []) = Some (c0, None)" by simp
    from write_blocks_inv [OF wb i0] write_blocks_kept [OF wb] i0
      first_nonfinal_ext [OF f0 write_blocks_nonfinal [OF wb i0(3)] k]
    show ?thesis by (simp add: session_kept_def)
  next
    case False
    with fin(3) i0 f0 show ?thesis by auto
  qed
  let ?c2 = "c0\<lparr>msgWriter := (msgWriter c0)\<lparr>mw_closed := True\<rparr>\<rparr>"
  from i1 have ncl2: "\<not> closed ?c2" by simp
  from writeFrame_untouched [OF fin(4)] have m3: "msgWriter c3 = msgWriter ?c2"
    by (simp add: writer_untouched_def)
  from m3 fin(8,9) have st: "mw_closed (msgWriter c')" "mw_opcode (msgWriter c') = mw_opcode (msgWriter c0)"
    by simp_all
  from i1 have k0: "k \<le> length (sent c0)" by (simp add: msg_inv_def)
  show ?thesis
  proof (cases "drop k (sent c0)")
    case Nil
    with i1 have "mw_opcode (msgWriter c0) = opcode_of typ" by (auto simp: msg_inv_def)
    with st show ?thesis by (simp add: close_first_def split: list.splits)
  next
    case (Cons f rest)
    with i1 have nf: "\<not> h_fin (fst f)" by (simp add: first_nonfinal_def)
    from writeFrame_trace [OF fin(4) ncl2] have "\<exists>gs. sent c3 = sent c0 @ gs" by auto
    then obtain gs where "sent c3 = sent c0 @ gs" ..
    with k0 Cons fin(5) have "drop k (sent c') = f # rest @ gs" by simp
    with nf show ?thesis by (simp add: close_first_def)
  qed
qed

lemma run_calls_close_first:
  "run_calls D c calls = Some c' \<Longrightarrow> msg_inv typ k c \<Longrightarrow> close_first typ k c \<Longrightarrow> \<not> closed c \<Longrightarrow>
     close_first typ k c'"
proof (induction calls arbitrary: c)
  case Nil
  then show ?case by simp
next
  case (Cons a calls)
  show ?case
  proof (cases a)
    case (CallWrite p)
    with Cons.prems obtain c1 n e where w: "msgWriter_Write D c p = Some (c1, n, e)"
      and r: "run_calls D c1 calls = Some c'"
      by (auto split: option.splits)
    from Write_inv [OF w Cons.prems(2,4)] have i: "msg_inv typ k c1" "\<not> closed c1" by simp_all
    from Cons.IH [OF r i(1) Write_close_first [OF w Cons.prems(2,3,4)] i(2)] show ?thesis .
  next
    case CallClose
    with Cons.prems obtain c1 e where w: "msgWriter_Close D c = Some (c1, e)"
      and r: "run_calls D c1 calls = Some c'"
      by (auto split: option.splits)
    from Close_inv [OF w Cons.prems(2,4)] have i: "msg_inv typ k c1" "\<not> closed c1" by simp_all
    from Cons.IH [OF r i(1) Close_close_first [OF w Cons.prems(2,3,4)] i(2)] show ?thesis .
  qed
qed

lemma writer_close_first:
  "writer c cx typ = Some (c0, None) \<Longrightarrow> \<not> closed c \<Longrightarrow> close_first typ (length (sent c)) c0"
  by (drule (1) writer_ok) (simp add: close_first_def)


subsection \<open>Opcodes and RSV1 over a message\<close>

text \<open>
  Claim C3, as stated, fails where the first frame of a message is the one \<^verbatim>\<open>Close\<close> writes:
  a writer is begun for a text message and closed at once. \<^verbatim>\<open>Close\<close> succeeds, the message
  has its first (and only) frame in the trace, and the writer's opcode field is still
  \<open>opText\<close>, not continuation.
\<close>

theorem opcode_field_after_close_counterexample:
  "msgWriter_Close stored_deflate open_writer = Some (empty_message_closed, None) \<and>
   sent open_writer = [] \<and>
   sent empty_message_closed =
     [(\<lparr>h_fin = True, h_rsv1 = False, h_opcode = opText, h_payloadLength = 0,
        h_masked = False, h_maskKey = 0\<rparr>, [])] \<and>
   mw_opcode (msgWriter empty_message_closed) = opText \<and>
   mw_opcode (msgWriter empty_message_closed) \<noteq> opContinuation"
  by (simp add: empty_message_closed_def open_writer_def fresh_conn_def write_defs)

text \<open>
  Claim C3, amended. For a message begun by \<^verbatim>\<open>Conn.writer\<close> on an open connection and any
  calls of \<^verbatim>\<open>Write\<close> and \<^verbatim>\<open>Close\<close> on its writer: the first frame of the message carries the
  message type's opcode, every later frame carries the continuation opcode with RSV1
  clear, and RSV1 of the first frame is the writer's compression flag, so RSV1 is set
  on the first frame of a compressed message only. While the writer is open its opcode
  field is the message type before the first frame and continuation after it; a frame
  written by \<^verbatim>\<open>msgWriter.write\<close> always leaves the field at continuation. When the first
  frame of the message has FIN, that is, when it is the final frame written by \<^verbatim>\<open>Close\<close>,
  the writer is closed and its opcode field keeps the message type.
\<close>

theorem message_frames:
  assumes "writer c cx typ = Some (c0, None)" and "\<not> closed c"
    and "run_calls D c0 calls = Some c'"
  shows "frames_ok typ (mw_flate (msgWriter c')) (new_frames c c') \<and>
         (mw_closed (msgWriter c') \<or>
          mw_opcode (msgWriter c') =
            (if new_frames c c' = [] then opcode_of typ else opContinuation)) \<and>
         (new_frames c c' \<noteq> [] \<and> h_fin (fst (hd (new_frames c c'))) \<longrightarrow>
            mw_closed (msgWriter c') \<and> mw_opcode (msgWriter c') = opcode_of typ) \<and>
         (\<forall>c1 q c2 n. msgWriter_write c1 q = Some (c2, n, None) \<longrightarrow>
            mw_opcode (msgWriter c2) = opContinuation)"
proof -
  from writer_inv [OF assms(1,2)] have i0: "msg_inv typ (length (sent c)) c0" "\<not> closed c0"
    by simp_all
  from run_calls_inv [OF assms(3) i0] have "msg_inv typ (length (sent c)) c'" .
  moreover from run_calls_close_first [OF assms(3) i0(1) writer_close_first [OF assms(1,2)] i0(2)]
  have "new_frames c c' \<noteq> [] \<and> h_fin (fst (hd (new_frames c c'))) \<longrightarrow>
            mw_closed (msgWriter c') \<and> mw_opcode (msgWriter c') = opcode_of typ"
    by (auto simp: close_first_def new_frames_def split: list.splits)
  moreover have "mw_opcode (msgWriter c2) = opContinuation"
    if "msgWriter_write c1 q = Some (c2, n, None)" for c1 q c2 n
    using that by (auto simp: msgWriter_write_def split: option.splits prod.splits)
  ultimately show ?thesis by (simp add: msg_inv_def new_frames_def)
qed

theorem message_frames_witness:
  "\<exists>c0 c' d0 d'. writer (fresh_conn False True) Background MessageText = Some (c0, None) \<and>
     \<not> closed (fresh_conn False True) \<and>
     run_calls stored_deflate c0 [CallWrite [1, 2, 3], CallWrite [4], CallClose] = Some c' \<and>
     frames_ok MessageText True (new_frames (fresh_conn False True) c') \<and>
     mw_flate (msgWriter c') \<and> mw_closed (msgWriter c') \<and>
     map (\<lambda>f. (h_opcode (fst f), h_rsv1 (fst f), h_fin (fst f))) (new_frames (fresh_conn False True) c') =
       [(opText, True, False), (opContinuation, False, False), (opContinuation, False, False),
        (opContinuation, False, False), (opContinuation, False, False),
        (opContinuation, False, False), (opContinuation, False, False),
        (opContinuation, False, True)] \<and>
     writer (fresh_conn True False) Background MessageBinary = Some (d0, None) \<and>
     \<not> closed (fresh_conn True False) \<and>
     run_calls stored_deflate d0 [CallClose] = Some d' \<and>
     new_frames (fresh_conn True False) d' \<noteq> [] \<and>
     h_fin (fst (hd (new_frames (fresh_conn True False) d'))) \<and>
     map (\<lambda>f. (h_opcode (fst f), h_rsv1 (fst f), h_fin (fst f))) (new_frames (fresh_conn True False) d') =
       [(opBinary, False, True)] \<and>
     mw_closed (msgWriter d') \<and> mw_opcode (msgWriter d') = opBinary"
proof -
  obtain c0 where w0: "writer (fresh_conn False True) Background MessageText = Some (c0, None)"
    and c0: "c0 = fst (the (writer (fresh_conn False True) Background MessageText))"
    by (simp add: fresh_conn_def write_defs)
  have g: "\<not> closed (fresh_conn False True)" by (simp add: fresh_conn_def)
  obtain c' where r: "run_calls stored_deflate c0 [CallWrite [1, 2, 3], CallWrite [4], CallClose] = Some c'"
    and l: "mw_flate (msgWriter c')" "mw_closed (msgWriter c')"
      "map (\<lambda>f. (h_opcode (fst f), h_rsv1 (fst f), h_fin (fst f))) (new_frames (fresh_conn False True) c') =
       [(opText, True, False), (opContinuation, False, False), (opContinuation, False, False),
        (opContinuation, False, False), (opContinuation, False, False),
        (opContinuation, False, False), (opContinuation, False, False),
        (opContinuation, False, True)]"
    by (simp add: c0 fresh_conn_def stored_deflate_def write_defs new_frames_def)
  from message_frames [OF w0 g r] l
  have f: "frames_ok MessageText True (new_frames (fresh_conn False True) c')" by simp
  obtain d0 where v0: "writer (fresh_conn True False) Background MessageBinary = Some (d0, None)"
    and d0: "d0 = fst (the (writer (fresh_conn True False) Background MessageBinary))"
    by (simp add: fresh_conn_def write_defs)
  have h: "\<not> closed (fresh_conn True False)" by (simp add: fresh_conn_def)
  obtain d' where s: "run_calls stored_deflate d0 [CallClose] = Some d'"
    and k: "new_frames (fresh_conn True False) d' \<noteq> []"
      "h_fin (fst (hd (new_frames (fresh_conn True False) d')))"
      "map (\<lambda>f. (h_opcode (fst f), h_rsv1 (fst f), h_fin (fst f))) (new_frames (fresh_conn True False) d') =
       [(opBinary, False, True)]"
    by (simp add: d0 fresh_conn_def stored_deflate_def write_defs new_frames_def)
  from message_frames [OF v0 h s] k(1,2)
  have e: "mw_closed (msgWriter d')" "mw_opcode (msgWriter d') = opBinary" by simp_all
  from w0 g r f l v0 h s k e show ?thesis
    by (intro exI [of _ c0] exI [of _ c'] exI [of _ d0] exI [of _ d']) simp
qed

subsection \<open>The buffered writer\<close>

lemma length_copy_at:
  "at + length src \<le> length dst \<Longrightarrow> length (copy_at dst at src) = length dst"
  by (simp add: copy_at_def)

lemma take_copy_at:
  "at + length src \<le> length dst \<Longrightarrow> take (at + length src) (copy_at dst at src) = take at dst @ src"
  by (simp add: copy_at_def)

lemma slice_copy_at:
  "at + length src \<le> length dst \<Longrightarrow> take (length src) (drop at (copy_at dst at src)) = src"
  by (simp add: copy_at_def)

lemma copy_at_twice:
  "at + length src \<le> length dst \<Longrightarrow> length src' = length src \<Longrightarrow>
     copy_at (copy_at dst at src) at src' = copy_at dst at src'"
  by (simp add: copy_at_def)

lemma Flush_ok:
  assumes "bw_ok b"
  shows "\<exists>b'. Flush b = (b', None) \<and> out_stream b' = out_stream b \<and> bw_ok b' \<and> bw_n b' = 0 \<and>
              bw_buf b' = bw_buf b"
  using assms
  by (auto simp: Flush_def bw_ok_def out_stream_def sink_Write_def)

lemma bufio_Write_fits:
  assumes "bw_ok b" and "length p \<le> Available b"
  shows "bufio_Write b p nn =
           (b\<lparr>bw_buf := copy_at (bw_buf b) (bw_n b) p, bw_n := bw_n b + length p\<rparr>,
            nn + length p, None)"
  using assms by (subst bufio_Write.simps) (simp add: bw_ok_def)

lemma bufio_Write_fits_stream:
  assumes "bw_ok b" and "length p \<le> Available b"
  shows "out_stream (b\<lparr>bw_buf := copy_at (bw_buf b) (bw_n b) p, bw_n := bw_n b + length p\<rparr>)
           = out_stream b @ p \<and>
         bw_ok (b\<lparr>bw_buf := copy_at (bw_buf b) (bw_n b) p, bw_n := bw_n b + length p\<rparr>)"
proof -
  from assms have le: "bw_n b + length p \<le> length (bw_buf b)"
    by (auto simp: bw_ok_def Available_def)
  from take_copy_at [OF le] length_copy_at [OF le] assms(1) le
  show ?thesis by (simp add: out_stream_def bw_ok_def)
qed

lemma bufio_Write_ok:
  "bw_ok b \<Longrightarrow>
     \<exists>b'. bufio_Write b p nn = (b', nn + length p, None) \<and> out_stream b' = out_stream b @ p \<and> bw_ok b'"
proof (induction b p nn rule: bufio_Write.induct)
  case (1 b p nn)
  show ?case
  proof (cases "length p \<le> Available b")
    case True
    from bufio_Write_fits [OF "1.prems" True] bufio_Write_fits_stream [OF "1.prems" True]
    show ?thesis by simp
  next
    case False
    with "1.prems" have big: "length p > Available b \<and> bw_err b = None" by (simp add: bw_ok_def)
    show ?thesis
    proof (cases "Buffered b = 0")
      case True
      let ?b1 = "b\<lparr>bw_wr := (bw_wr b)\<lparr>wire := wire (bw_wr b) @ p\<rparr>, bw_err := None\<rparr>"
      from "1.prems" have sw: "sink_Write (bw_wr b) p = ((bw_wr b)\<lparr>wire := wire (bw_wr b) @ p\<rparr>, length p, None)"
        by (simp add: sink_Write_def bw_ok_def)
      from "1.prems" True have ok1: "bw_ok ?b1" and s1: "out_stream ?b1 = out_stream b @ p"
        by (simp_all add: bw_ok_def out_stream_def Buffered_def)
      from "1.IH"(1) [OF big True sw [symmetric] refl ok1] obtain b' where
        "bufio_Write ?b1 (drop (length p) p) (nn + length p) = (b', nn + length p + length (drop (length p) p), None)"
        "out_stream b' = out_stream ?b1 @ drop (length p) p" "bw_ok b'"
        by blast
      with s1 big True sw show ?thesis by (subst bufio_Write.simps) simp
    next
      case nz: False
      let ?k = "min (Available b) (length p)"
      let ?b1 = "b\<lparr>bw_buf := copy_at (bw_buf b) (bw_n b) p, bw_n := bw_n b + ?k\<rparr>"
      from big have k: "?k = Available b" by simp
      from "1.prems" have le: "bw_n b + length (take ?k p) \<le> length (bw_buf b)"
        by (auto simp: bw_ok_def Available_def)
      have cp: "copy_at (bw_buf b) (bw_n b) p = copy_at (bw_buf b) (bw_n b) (take ?k p)"
        using "1.prems" big by (auto simp: copy_at_def Available_def bw_ok_def min_def)
      from "1.prems" le have ok1: "bw_ok ?b1"
        by (simp add: bw_ok_def Available_def cp length_copy_at)
      have s1: "out_stream ?b1 = out_stream b @ take ?k p"
        using take_copy_at [OF le] "1.prems" big
        by (simp add: out_stream_def cp Available_def bw_ok_def)
      from Flush_ok [OF ok1] obtain b2 where f: "Flush ?b1 = (b2, None)"
        and s2: "out_stream b2 = out_stream ?b1" and ok2: "bw_ok b2"
        by blast
      from f have f': "fst (Flush ?b1) = b2" by simp
      from "1.IH"(2) [OF big nz refl refl] ok2 f' obtain b' where
        "bufio_Write b2 (drop ?k p) (nn + ?k) = (b', nn + ?k + length (drop ?k p), None)"
        "out_stream b' = out_stream b2 @ drop ?k p" "bw_ok b'"
        by auto
      with s1 s2 big nz f' show ?thesis
        by (subst bufio_Write.simps) (simp add: Let_def)
    qed
  qed
qed


subsection \<open>Masking\<close>

lemma length_mask_bytes: "length (snd (mask_bytes key p)) = length p"
  by (induction p arbitrary: key) (simp_all add: case_prod_beta)

lemma mask_bytes_append:
  "mask_bytes key (p @ q) =
     (fst (mask_bytes (fst (mask_bytes key p)) q),
      snd (mask_bytes key p) @ snd (mask_bytes (fst (mask_bytes key p)) q))"
  by (induction p arbitrary: key) (simp_all add: case_prod_beta)

lemma mask_bytes_split:
  "snd (mask_bytes key p) =
     snd (mask_bytes key (take j p)) @ snd (mask_bytes (fst (mask_bytes key (take j p))) (drop j p))"
  using mask_bytes_append [of key "take j p" "drop j p"] by simp

text \<open>
  The loop of \<^verbatim>\<open>writeFramePayload\<close> on a healthy buffered writer returns, reports the whole
  payload written, and has added to the output exactly the payload masked in one pass,
  wherever the buffer had to be flushed.
\<close>

lemma writeFramePayload_loop_ok:
  "bw_ok b \<Longrightarrow>
     \<exists>b'. writeFramePayload_loop b key p n = Some (b', n + length p, None) \<and>
          out_stream b' = out_stream b @ snd (mask_bytes key p) \<and> bw_ok b'"
proof (induction "length p" arbitrary: b key p n rule: less_induct)
  case less
  show ?case
  proof (cases "p = []")
    case True
    with less.prems show ?thesis by (subst writeFramePayload_loop.simps) simp
  next
    case False
    define b1 where "b1 = (if Available b = 0 then fst (Flush b) else b)"
    from Flush_ok [OF less.prems] less.prems
    have f: "(if Available b = 0 then Flush b else (b, None)) = (b1, None)"
      and ok1: "bw_ok b1" and s1: "out_stream b1 = out_stream b" and av: "0 < Available b1"
      by (auto simp: b1_def Available_def bw_ok_def)
    define j where "j = (if length p > Available b1 then Available b1 else length p)"
    from av False have j: "0 < j" "j \<le> Available b1" "j \<le> length p" "length (take j p) = j"
      by (auto simp: j_def)
    from j have fit: "length (take j p) \<le> Available b1" by simp
    define b2 where "b2 = b1\<lparr>bw_buf := copy_at (bw_buf b1) (bw_n b1) (take j p), bw_n := bw_n b1 + j\<rparr>"
    from bufio_Write_fits [OF ok1 fit, of 0] j
    have w: "bufio_Write b1 (take j p) 0 = (b2, j, None)" by (simp add: b2_def)
    from ok1 j have le: "bw_n b1 + length (take j p) \<le> length (bw_buf b1)"
      by (auto simp: bw_ok_def Available_def)
    from slice_copy_at [OF le] j
    have sl: "take (Buffered b2 - Buffered b1) (drop (Buffered b1) (bw_buf b2)) = take j p"
      by (simp add: b2_def Buffered_def)
    define key' where "key' = fst (mask_bytes key (take j p))"
    define masked where "masked = snd (mask_bytes key (take j p))"
    have m: "mask_bytes key (take j p) = (key', masked)" by (simp add: key'_def masked_def)
    have lm: "length masked = length (take j p)" by (simp add: masked_def length_mask_bytes)
    define b3 where "b3 = b2\<lparr>bw_buf := copy_at (bw_buf b2) (Buffered b1) masked\<rparr>"
    from copy_at_twice [OF le lm] have buf3: "bw_buf b3 = copy_at (bw_buf b1) (bw_n b1) masked"
      by (simp add: b3_def b2_def Buffered_def)
    from le lm have le': "bw_n b1 + length masked \<le> length (bw_buf b1)" by simp
    have f3: "bw_n b3 = bw_n b1 + j" "bw_err b3 = bw_err b1" "bw_wr b3 = bw_wr b1"
      by (simp_all add: b3_def b2_def)
    from take_copy_at [OF le'] length_copy_at [OF le'] ok1 lm j le'
    have ok3: "bw_ok b3" and s3: "out_stream b3 = out_stream b1 @ masked"
      by (auto simp: bw_ok_def out_stream_def buf3 f3)
    from j False have "length (drop j p) < length p" by simp
    from less.hyps [OF this ok3, of key' "n + j"] obtain b' where
      r: "writeFramePayload_loop b3 key' (drop j p) (n + j) = Some (b', n + j + length (drop j p), None)"
      and s': "out_stream b' = out_stream b3 @ snd (mask_bytes key' (drop j p))" and ok': "bw_ok b'"
      by blast
    from j have n: "n + j + length (drop j p) = n + length p" by simp
    have "writeFramePayload_loop b key p n = writeFramePayload_loop b3 key' (drop j p) (n + j)"
      using False f w sl m
      by (subst writeFramePayload_loop.simps) (simp add: Let_def j_def [symmetric] b3_def)
    with r n s' s3 s1 ok' mask_bytes_split [of key p j] show ?thesis
      by (simp add: masked_def key'_def)
  qed
qed




lemma four_bytes:
  assumes "length (bs :: byte list) = 4"
  obtains a b c d where "bs = [a, b, c, d]"
proof -
  from assms obtain a r1 where "bs = a # r1" "length r1 = 3" by (cases bs) auto
  moreover then obtain b r2 where "r1 = b # r2" "length r2 = 2" by (cases r1) auto
  moreover then obtain c r3 where "r2 = c # r3" "length r3 = 1" by (cases r2) auto
  moreover then obtain d where "r3 = [d]" by (cases r3) auto
  ultimately show ?thesis using that by simp
qed

lemma le_uint32_bytes:
  "ucast (le_uint32 [a, b, c, d]) = a"
  "ucast (drop_bit 8 (le_uint32 [a, b, c, d])) = b"
  "ucast (drop_bit 16 (le_uint32 [a, b, c, d])) = c"
  "ucast (drop_bit 24 (le_uint32 [a, b, c, d])) = d"
  by (rule bit_word_eqI; auto simp: le_uint32_def bit_simps dest: bit_imp_le_length)+

lemma le_bytes32_le_uint32:
  assumes "length bs = 4"
  shows "le_bytes32 (le_uint32 bs) = bs"
proof -
  from assms obtain a b c d where "bs = [a, b, c, d]" by (rule four_bytes)
  then show ?thesis by (simp add: le_bytes32_def le_uint32_bytes)
qed

lemma le_bytes32_rotate_key:
  "le_bytes32 (rotate_key k) = rotate1 (le_bytes32 k)"
proof -
  have "(ucast (rotate_key k) :: byte) = ucast (drop_bit 8 k)"
    "(ucast (drop_bit 8 (rotate_key k)) :: byte) = ucast (drop_bit 16 k)"
    "(ucast (drop_bit 16 (rotate_key k)) :: byte) = ucast (drop_bit 24 k)"
    "(ucast (drop_bit 24 (rotate_key k)) :: byte) = ucast k"
    by (rule bit_word_eqI; auto simp: rotate_key_def bit_simps)+
  then show ?thesis by (simp add: le_bytes32_def)
qed


lemma mask_bytes_nth:
  "i < length p \<Longrightarrow> snd (mask_bytes key p) ! i = p ! i XOR (le_bytes32 key ! (i mod 4))"
proof (induction p arbitrary: key i)
  case Nil
  then show ?case by simp
next
  case (Cons b bs)
  show ?case
  proof (cases i)
    case 0
    then show ?thesis by (simp add: case_prod_beta le_bytes32_def)
  next
    case (Suc m)
    with Cons.prems have m: "m < length bs" by simp
    have "rotate1 (le_bytes32 key) ! (m mod 4) = le_bytes32 key ! (Suc m mod 4)"
      by (subst nth_rotate1) (simp_all add: le_bytes32_def mod_Suc_eq)
    with Cons.IH [OF m, of "rotate_key key"] Suc show ?thesis
      by (simp add: case_prod_beta le_bytes32_rotate_key)
  qed
qed


subsection \<open>Frames of a client\<close>

lemma writeFrame_locked_client:
  assumes cl: "client c" and nc: "\<not> closed c" and r: "4 \<le> length (randReader c)"
    and ok: "bw_ok (bw c)"
    and h: "h = (writeHeader c)\<lparr>h_fin := fin, h_opcode := opc, h_payloadLength := length p,
                 h_masked := True, h_maskKey := le_uint32 (take 4 (randReader c)),
                 h_rsv1 := (fl \<and> (opc = opText \<or> opc = opBinary))\<rparr>"
  shows "\<exists>c'. writeFrame_locked c cx fin fl opc p = Some (c', length p, None) \<and>
           writeHeader c' = h \<and> sent c' = sent c @ [(h, p)] \<and>
           randReader c' = drop 4 (randReader c) \<and> writeFrameMu c' = writeFrameMu c \<and>
           out_stream (bw c') =
             out_stream (bw c) @ header_bytes h @ snd (mask_bytes (h_maskKey h) p) \<and>
           bw_ok (bw c') \<and> (fin \<longrightarrow> bw_n (bw c') = 0)"
proof -
  from bufio_Write_ok [OF ok, of "header_bytes h" 0]
  obtain b5 where b5: "bufio_Write (bw c) (header_bytes h) 0 = (b5, length (header_bytes h), None)"
    "out_stream b5 = out_stream (bw c) @ header_bytes h" "bw_ok b5"
    by auto
  from writeFramePayload_loop_ok [OF b5(3), of "h_maskKey h" p 0]
  obtain b6 where b6: "writeFramePayload_loop b5 (h_maskKey h) p 0 = Some (b6, length p, None)"
    "out_stream b6 = out_stream b5 @ snd (mask_bytes (h_maskKey h) p)" "bw_ok b6"
    by auto
  from Flush_ok [OF b6(3)]
  obtain b8 where b8: "Flush b6 = (b8, None)" "out_stream b8 = out_stream b6" "bw_ok b8" "bw_n b8 = 0"
    by auto
  show ?thesis
    using cl nc r b5 b6 b8
    unfolding h writeFrame_locked_def Let_def writeFrameHeader_def writeFramePayload_def
    by (cases fin) (simp_all add: errd_Wrap_def)
qed

lemma writeFrame_locked_emitted:
  "writeFrame_locked c cx fin fl opc p = Some (c', n, err) \<Longrightarrow> client c \<Longrightarrow> sent c' \<noteq> sent c \<Longrightarrow>
     \<not> closed c \<and> 4 \<le> length (randReader c) \<and> randReader c' = drop 4 (randReader c) \<and>
     sent c' = sent c @ [(writeHeader c', p)] \<and> h_masked (writeHeader c') \<and>
     h_maskKey (writeHeader c') = le_uint32 (take 4 (randReader c))"
  unfolding writeFrame_locked_def Let_def
  apply (simp split: if_splits option.splits prod.splits)
         apply (auto)?
  done

text \<open>
  Claim C6. Every frame a client connection emits has the masked flag set and carries
  as its key the next four bytes of the random source (\<open>randReader\<close> stands for
  \<^verbatim>\<open>crypto/rand.Reader\<close>), which are consumed before the header is written. On a healthy
  buffered writer the frame write succeeds, and the byte stream grows by the header
  followed by the payload masked in one pass with that key: byte \<open>i\<close> is the payload's
  byte \<open>i\<close> XOR byte \<open>i mod 4\<close> of the key, however many times the loop of
  \<^verbatim>\<open>writeFramePayload\<close> had to flush the buffer. A final frame leaves all of it on the
  wire.
\<close>

theorem client_frame_masked:
  assumes "client c"
  shows "(\<forall>c' n err. writeFrame c cx fin fl opc p = Some (c', n, err) \<and> sent c' \<noteq> sent c \<longrightarrow>
            4 \<le> length (randReader c) \<and> randReader c' = drop 4 (randReader c) \<and>
            sent c' = sent c @ [(writeHeader c', p)] \<and>
            h_masked (writeHeader c') \<and>
            le_bytes32 (h_maskKey (writeHeader c')) = take 4 (randReader c) \<and>
            (bw_ok (bw c) \<longrightarrow>
               n = length p \<and> err = None \<and>
               out_stream (bw c') =
                 out_stream (bw c) @ header_bytes (writeHeader c') @
                 snd (mask_bytes (h_maskKey (writeHeader c')) p) \<and>
               length (snd (mask_bytes (h_maskKey (writeHeader c')) p)) = length p \<and>
               (\<forall>i < length p. snd (mask_bytes (h_maskKey (writeHeader c')) p) ! i =
                                p ! i XOR take 4 (randReader c) ! (i mod 4)) \<and>
               (fin \<longrightarrow> wire (bw_wr (bw c')) = out_stream (bw c')))) \<and>
         (\<not> closed c \<and> \<not> writeFrameMu c \<and> ctx_err cx = None \<and> 4 \<le> length (randReader c) \<and>
          bw_ok (bw c) \<longrightarrow>
            (\<exists>c'. writeFrame c cx fin fl opc p = Some (c', length p, None) \<and> sent c' \<noteq> sent c))"
proof (intro conjI allI impI)
  fix c' n err
  assume a: "writeFrame c cx fin fl opc p = Some (c', n, err) \<and> sent c' \<noteq> sent c"
  then obtain held c1 where l: "mu_Lock c (writeFrameMu c) cx = Some (held, None)"
    and w: "writeFrame_locked (c\<lparr>writeFrameMu := held\<rparr>) cx fin fl opc p = Some (c1, n, err)"
    and c': "c' = c1\<lparr>writeFrameMu := False\<rparr>"
    by (auto simp: writeFrame_def split: option.splits prod.splits)
  from a c' have ne: "sent c1 \<noteq> sent (c\<lparr>writeFrameMu := held\<rparr>)" by simp
  from assms have cl: "client (c\<lparr>writeFrameMu := held\<rparr>)" by simp
  from writeFrame_locked_emitted [OF w cl ne]
  have e: "\<not> closed c" "4 \<le> length (randReader c)" "randReader c1 = drop 4 (randReader c)"
    "sent c1 = sent c @ [(writeHeader c1, p)]" "h_masked (writeHeader c1)"
    "h_maskKey (writeHeader c1) = le_uint32 (take 4 (randReader c))"
    by simp_all
  from e(2) have k: "le_bytes32 (le_uint32 (take 4 (randReader c))) = take 4 (randReader c)"
    by (intro le_bytes32_le_uint32) simp
  show "4 \<le> length (randReader c)" by (rule e(2))
  show "randReader c' = drop 4 (randReader c)" using e(3) c' by simp
  show "sent c' = sent c @ [(writeHeader c', p)]" using e(4) c' by simp
  show "h_masked (writeHeader c')" using e(5) c' by simp
  show "le_bytes32 (h_maskKey (writeHeader c')) = take 4 (randReader c)" using e(6) k c' by simp
  show "length (snd (mask_bytes (h_maskKey (writeHeader c')) p)) = length p"
    by (rule length_mask_bytes)
  show "snd (mask_bytes (h_maskKey (writeHeader c')) p) ! i =
          p ! i XOR take 4 (randReader c) ! (i mod 4)" if "i < length p" for i
    using mask_bytes_nth [OF that, of "h_maskKey (writeHeader c')"] e(6) k c' by simp
  assume ok: "bw_ok (bw c)"
  then have ok': "bw_ok (bw (c\<lparr>writeFrameMu := held\<rparr>))" by simp
  from e(1) have nc: "\<not> closed (c\<lparr>writeFrameMu := held\<rparr>)" by simp
  from e(2) have r: "4 \<le> length (randReader (c\<lparr>writeFrameMu := held\<rparr>))" by simp
  from writeFrame_locked_client [where cx = cx and fin = fin and opc = opc and p = p and fl = fl, OF cl nc r ok' refl] w
  have f: "n = length p" "err = None"
    "out_stream (bw c1) = out_stream (bw c) @ header_bytes (writeHeader c1) @
       snd (mask_bytes (h_maskKey (writeHeader c1)) p)"
    "bw_ok (bw c1)" "fin \<longrightarrow> bw_n (bw c1) = 0"
    by auto
  show "n = length p" by (rule f(1))
  show "err = None" by (rule f(2))
  show "out_stream (bw c') =
          out_stream (bw c) @ header_bytes (writeHeader c') @
          snd (mask_bytes (h_maskKey (writeHeader c')) p)"
    using f(3) c' by simp
  show "wire (bw_wr (bw c')) = out_stream (bw c')" if fin
    using f(5) that c' by (simp add: out_stream_def)
next
  assume a: "\<not> closed c \<and> \<not> writeFrameMu c \<and> ctx_err cx = None \<and> 4 \<le> length (randReader c) \<and>
          bw_ok (bw c)"
  then have l: "mu_Lock c (writeFrameMu c) cx = Some (True, None)" by (simp add: mu_Lock_def)
  from assms have cl: "client (c\<lparr>writeFrameMu := True\<rparr>)" by simp
  from a have nc: "\<not> closed (c\<lparr>writeFrameMu := True\<rparr>)"
    and r: "4 \<le> length (randReader (c\<lparr>writeFrameMu := True\<rparr>))"
    and ok: "bw_ok (bw (c\<lparr>writeFrameMu := True\<rparr>))" by simp_all
  from writeFrame_locked_client [where cx = cx and fin = fin and opc = opc and p = p and fl = fl, OF cl nc r ok refl]
  obtain c1 where w: "writeFrame_locked (c\<lparr>writeFrameMu := True\<rparr>) cx fin fl opc p = Some (c1, length p, None)"
    and s: "sent c1 \<noteq> sent c"
    by auto
  from l w s show "\<exists>c'. writeFrame c cx fin fl opc p = Some (c', length p, None) \<and> sent c' \<noteq> sent c"
    by (simp add: writeFrame_def)
qed

theorem client_frame_masked_witness:
  "\<exists>c'. client (fresh_conn True False) \<and> bw_ok (bw (fresh_conn True False)) \<and>
     \<not> closed (fresh_conn True False) \<and> \<not> writeFrameMu (fresh_conn True False) \<and>
     ctx_err Background = None \<and> 4 \<le> length (randReader (fresh_conn True False)) \<and>
     writeFrame (fresh_conn True False) Background True False opBinary [1, 2, 3, 4, 5, 6, 7, 8, 9, 10]
       = Some (c', 10, None) \<and>
     sent c' \<noteq> sent (fresh_conn True False) \<and>
     length (bw_buf (bw (fresh_conn True False))) = 8 \<and>
     h_masked (writeHeader c') \<and>
     le_bytes32 (h_maskKey (writeHeader c')) = [0x11, 0x22, 0x33, 0x44] \<and>
     randReader c' = [0x55, 0x66, 0x77, 0x88, 0x99, 0xAA, 0xBB, 0xCC] \<and>
     snd (mask_bytes (h_maskKey (writeHeader c')) [1, 2, 3, 4, 5, 6, 7, 8, 9, 10]) ! 9 = 10 XOR 0x22 \<and>
     out_stream (bw c') = wire (bw_wr (bw c')) \<and>
     wire (bw_wr (bw c')) =
       [0x82, 0x8A, 0x11, 0x22, 0x33, 0x44,
        0x10, 0x20, 0x30, 0x40, 0x14, 0x24, 0x34, 0x4C, 0x18, 0x28]"
proof -
  let ?c = "fresh_conn True False"
  let ?p = "[1, 2, 3, 4, 5, 6, 7, 8, 9, 10] :: byte list"
  have g: "client ?c" "bw_ok (bw ?c)" "\<not> closed ?c" "\<not> writeFrameMu ?c" "ctx_err Background = None"
    "4 \<le> length (randReader ?c)" "length (bw_buf (bw ?c)) = 8"
    "take 4 (randReader ?c) = [0x11, 0x22, 0x33, 0x44]"
    "drop 4 (randReader ?c) = [0x55, 0x66, 0x77, 0x88, 0x99, 0xAA, 0xBB, 0xCC]"
    by (simp_all add: fresh_conn_def bw_ok_def Background_def)
  obtain c' n err where w: "writeFrame ?c Background True False opBinary ?p = Some (c', n, err)"
    and s: "sent c' \<noteq> sent ?c"
    and v: "wire (bw_wr (bw c')) =
       [0x82, 0x8A, 0x11, 0x22, 0x33, 0x44,
        0x10, 0x20, 0x30, 0x40, 0x14, 0x24, 0x34, 0x4C, 0x18, 0x28]"
    by (simp add: fresh_conn_def write_defs)
  note t = client_frame_masked [OF g(1), of Background True False opBinary ?p]
  from t w s g(2) have a: "n = length ?p" "err = None" "h_masked (writeHeader c')"
    "le_bytes32 (h_maskKey (writeHeader c')) = take 4 (randReader ?c)"
    "randReader c' = drop 4 (randReader ?c)"
    "wire (bw_wr (bw c')) = out_stream (bw c')"
    by blast+
  from t w s g(2) have "\<forall>i < length ?p. snd (mask_bytes (h_maskKey (writeHeader c')) ?p) ! i =
       ?p ! i XOR take 4 (randReader ?c) ! (i mod 4)"
    by blast
  moreover have "(9 :: nat) < length ?p" by simp
  ultimately have "snd (mask_bytes (h_maskKey (writeHeader c')) ?p) ! 9 =
       ?p ! 9 XOR take 4 (randReader ?c) ! (9 mod 4)"
    by blast
  then have b: "snd (mask_bytes (h_maskKey (writeHeader c')) ?p) ! 9 = 10 XOR 0x22"
    by (simp add: fresh_conn_def)
  from w a(1,2) have w': "writeFrame ?c Background True False opBinary ?p = Some (c', 10, None)"
    by simp
  from g w' s a b v show ?thesis by (intro exI [of _ c']) simp
qed

end
